theory Spec2Isabelle
  imports Main
begin

section \<open>Data model of \<open>ai_wargame.py\<close>\<close>

text \<open>
  The enums of the source become datatypes, in the order of their Python values.
  \<open>UnitType_value\<close> is the \<open>.value\<close> of a \<open>UnitType\<close>, used to index the two tables.
\<close>

datatype UnitType = AI | Tech | Virus | Program | Firewall

datatype Player = Attacker | Defender

datatype Direction = Up | Right | Down | Left

datatype ActionType = SelfDestruct | Move | Attack | Repair

datatype GameType = AttackerVsDefender | AttackerVsComp | CompVsDefender | CompVsComp

text \<open>The exceptions of the Python run-time that the modelled functions can raise.\<close>

datatype error = AttributeError | TypeError | UnboundLocalError | RecursionError

fun UnitType_value :: "UnitType \<Rightarrow> nat" where
  "UnitType_value AI = 0"
| "UnitType_value Tech = 1"
| "UnitType_value Virus = 2"
| "UnitType_value Program = 3"
| "UnitType_value Firewall = 4"

fun Player_next :: "Player \<Rightarrow> Player" where
  "Player_next Attacker = Defender"
| "Player_next Defender = Attacker"

record Unit =
  player :: Player
  utype :: UnitType
  health :: int

record Coord =
  row :: int
  col :: int

record CoordPair =
  src :: Coord
  dst :: Coord

text \<open>
  \<open>Options\<close>: every field of the dataclass except \<open>max_time\<close>, a floating-point
  number of seconds that is only compared with the wall clock (the search below takes the
  outcome of that comparison as a parameter).
\<close>

record Options =
  dim :: int
  max_depth :: "int option"
  min_depth :: "int option"
  game_type :: GameType
  alpha_beta :: bool
  max_turns :: "int option"
  randomize_moves :: bool
  broker :: "string option"
  heuristic :: "string option"

text \<open>
  \<open>Game\<close>: the board is a list of rows of optional units, as in the source. The fields
  \<open>stats\<close>, \<open>file_name\<close> and \<open>skip_logs\<close> only feed the trace file and the printed
  statistics and are left out; \<open>dump_to_output_file\<close> is therefore not modelled.
\<close>

record Game =
  board :: "Unit option list list"
  next_player :: Player
  turns_played :: int
  options :: Options
  attacker_has_ai :: bool
  defender_has_ai :: bool

definition default_Options :: Options where
  "default_Options = \<lparr> dim = 5, max_depth = Some 4, min_depth = Some 2,
     game_type = AttackerVsDefender, alpha_beta = True, max_turns = Some 100,
     randomize_moves = True, broker = None, heuristic = None \<rparr>"

subsection \<open>Unit\<close>

definition damage_table :: "int list list" where
  "damage_table = [
     [3,3,3,3,1],
     [1,1,6,1,1],
     [9,6,1,6,1],
     [3,3,3,3,1],
     [1,1,1,1,1]]"

definition repair_table :: "int list list" where
  "repair_table = [
     [0,1,1,0,0],
     [3,0,0,3,3],
     [0,0,0,0,0],
     [0,0,0,0,0],
     [0,0,0,0,0]]"

definition is_alive :: "Unit \<Rightarrow> bool" where
  "is_alive u = (health u > 0)"

definition Unit_mod_health :: "Unit \<Rightarrow> int \<Rightarrow> Unit" where
  "Unit_mod_health u health_delta =
     (let h = health u + health_delta
      in if h < 0 then u\<lparr>health := 0\<rparr>
         else if h > 9 then u\<lparr>health := 9\<rparr>
         else u\<lparr>health := h\<rparr>)"

definition has_full_health :: "Unit \<Rightarrow> bool" where
  "has_full_health u = (if health u = 9 then True else False)"

definition damage_amount :: "Unit \<Rightarrow> Unit \<Rightarrow> int" where
  "damage_amount u target =
     (let amount = damage_table ! UnitType_value (utype u) ! UnitType_value (utype target)
      in if health target - amount < 0 then health target else amount)"

definition repair_amount :: "Unit \<Rightarrow> Unit \<Rightarrow> int" where
  "repair_amount u target =
     (let amount = repair_table ! UnitType_value (utype u) ! UnitType_value (utype target)
      in if health target + amount > 9 then 9 - health target else amount)"

text \<open>
  \<open>is_valid_movement\<close> has no \<open>return\<close> on two of its paths (an Attacker unit of type
  Tech, a Defender unit of type Virus): Python then returns \<open>None\<close>, here \<open>None\<close> of
  \<open>bool option\<close>. The direction argument may itself be Python's \<open>None\<close>.
\<close>

definition is_valid_movement :: "Unit \<Rightarrow> Player \<Rightarrow> Direction option \<Rightarrow> bool option" where
  "is_valid_movement u p direction =
     (if p = Attacker \<and> (utype u = AI \<or> utype u = Program \<or> utype u = Firewall) then
        (if direction = Some Up \<or> direction = Some Left then Some True else Some False)
      else if p = Attacker \<and> utype u = Virus then Some True
      else if p = Defender \<and> (utype u = AI \<or> utype u = Program \<or> utype u = Firewall) then
        (if direction = Some Down \<or> direction = Some Right then Some True else Some False)
      else if p = Defender \<and> utype u = Tech then Some True
      else None)"

text \<open>Python's truth value of an optional Boolean: \<open>None\<close> counts as false.\<close>

fun truthy :: "bool option \<Rightarrow> bool" where
  "truthy None = False"
| "truthy (Some b) = b"

subsection \<open>Coord and CoordPair\<close>

definition mk_Coord :: "int \<Rightarrow> int \<Rightarrow> Coord" where
  "mk_Coord r c = \<lparr> row = r, col = c \<rparr>"

definition iter_range :: "Coord \<Rightarrow> int \<Rightarrow> Coord list" where
  "iter_range c dist =
     concat (map (\<lambda>r. map (\<lambda>k. mk_Coord r k) [col c - dist .. col c + dist])
                 [row c - dist .. row c + dist])"

definition iter_adjacent :: "Coord \<Rightarrow> Coord list" where
  "iter_adjacent c =
     [mk_Coord (row c - 1) (col c), mk_Coord (row c) (col c - 1),
      mk_Coord (row c + 1) (col c), mk_Coord (row c) (col c + 1)]"

definition equals :: "Coord \<Rightarrow> Coord \<Rightarrow> bool" where
  "equals c target = (if row c = row target \<and> col c = col target then True else False)"

definition iter_rectangle :: "CoordPair \<Rightarrow> Coord list" where
  "iter_rectangle cp =
     concat (map (\<lambda>r. map (\<lambda>k. mk_Coord r k) [col (src cp) .. col (dst cp)])
                 [row (src cp) .. row (dst cp)])"

definition is_adjacent :: "CoordPair \<Rightarrow> bool" where
  "is_adjacent cp =
     list_ex (\<lambda>adj_coord. col adj_coord = col (dst cp) \<and> row adj_coord = row (dst cp))
             (iter_adjacent (src cp))"

definition are_coords_equal :: "CoordPair \<Rightarrow> bool" where
  "are_coords_equal cp = (if equals (src cp) (dst cp) then True else False)"

text \<open>\<open>get_direction\<close> falls off its end when none of the four tests holds: \<open>None\<close>.\<close>

definition get_direction :: "CoordPair \<Rightarrow> Direction option" where
  "get_direction cp =
     (let srcRow = row (src cp); srcCol = col (src cp);
          dstRow = row (dst cp); dstCol = col (dst cp)
      in if srcRow < dstRow \<and> srcCol = dstCol then Some Down
         else if srcRow > dstRow \<and> srcCol = dstCol then Some Up
         else if srcRow = dstRow \<and> srcCol < dstCol then Some Right
         else if srcRow = dstRow \<and> srcCol > dstCol then Some Left
         else None)"

definition from_dim :: "int \<Rightarrow> CoordPair" where
  "from_dim d = \<lparr> src = mk_Coord 0 0, dst = mk_Coord (d - 1) (d - 1) \<rparr>"

subsection \<open>Game: board access\<close>

definition is_valid_coord :: "Game \<Rightarrow> Coord \<Rightarrow> bool" where
  "is_valid_coord g coord =
     (let d = dim (options g)
      in if row coord < 0 \<or> row coord \<ge> d \<or> col coord < 0 \<or> col coord \<ge> d then False
         else True)"

text \<open>
  \<open>get\<close> and \<open>set\<close> index the board only at a coordinate that \<open>is_valid_coord\<close>
  accepts. The board is built \<open>dim \<times> dim\<close> by \<open>__post_init__\<close> and no operation changes
  its shape (predicate \<open>board_shape\<close> below), so these reads and writes are in range.
\<close>

definition get :: "Game \<Rightarrow> Coord \<Rightarrow> Unit option" where
  "get g coord =
     (if is_valid_coord g coord then board g ! nat (row coord) ! nat (col coord) else None)"

definition set_coord :: "Game \<Rightarrow> Coord \<Rightarrow> Unit option \<Rightarrow> Game" where
  "set_coord g coord unit =
     (if is_valid_coord g coord
      then g\<lparr>board := (board g)[nat (row coord) :=
                          (board g ! nat (row coord))[nat (col coord) := unit]]\<rparr>
      else g)"

definition remove_dead :: "Game \<Rightarrow> Coord \<Rightarrow> Game" where
  "remove_dead g coord =
     (case get g coord of
        None \<Rightarrow> g
      | Some unit \<Rightarrow>
          if \<not> is_alive unit then
            (let g1 = set_coord g coord None
             in if utype unit = AI then
                  (if player unit = Attacker then g1\<lparr>attacker_has_ai := False\<rparr>
                   else g1\<lparr>defender_has_ai := False\<rparr>)
                else g1)
          else g)"

text \<open>
  \<open>Game.mod_health\<close>: the source mutates the unit object held by the cell; the model
  writes the modified unit back to the same cell, then sweeps the cell.
\<close>

definition Game_mod_health :: "Game \<Rightarrow> Coord \<Rightarrow> int \<Rightarrow> Game" where
  "Game_mod_health g coord health_delta =
     (case get g coord of
        None \<Rightarrow> g
      | Some target \<Rightarrow>
          remove_dead (set_coord g coord (Some (Unit_mod_health target health_delta))) coord)"

subsection \<open>Game: actions\<close>

definition perform_self_distruct :: "Game \<Rightarrow> Coord \<Rightarrow> error + Game" where
  "perform_self_distruct g s =
     (let g1 = fold (\<lambda>d acc. if equals s d then acc else Game_mod_health acc d (- 2))
                    (iter_range s 1) g
      in case get g1 s of
           None \<Rightarrow> Inl AttributeError
         | Some src_unit \<Rightarrow> Inr (Game_mod_health g1 s (- health src_unit)))"

definition perform_fight :: "Game \<Rightarrow> CoordPair \<Rightarrow> error + Game" where
  "perform_fight g coords =
     (case get g (src coords) of
        None \<Rightarrow> Inl AttributeError
      | Some src_unit \<Rightarrow>
          (case get g (dst coords) of
             None \<Rightarrow> Inl AttributeError
           | Some dst_unit \<Rightarrow>
               (let damage_to_dst = damage_amount src_unit dst_unit;
                    damage_to_src = damage_amount dst_unit src_unit;
                    g1 = Game_mod_health g (src coords) (- damage_to_src)
                in Inr (Game_mod_health g1 (dst coords) (- damage_to_dst)))))"

definition perform_repair :: "Game \<Rightarrow> CoordPair \<Rightarrow> error + Game" where
  "perform_repair g coords =
     (case get g (src coords) of
        None \<Rightarrow> Inl AttributeError
      | Some src_unit \<Rightarrow>
          (case get g (dst coords) of
             None \<Rightarrow> Inl AttributeError
           | Some dst_unit \<Rightarrow>
               (let repair_to_dst = repair_amount src_unit dst_unit
                in Inr (Game_mod_health g (dst coords) repair_to_dst))))"

definition is_repair_zero :: "Unit \<Rightarrow> Unit \<Rightarrow> bool" where
  "is_repair_zero src_unit dst_unit = (repair_amount src_unit dst_unit \<le> 0)"

definition is_engaged_in_combat :: "Game \<Rightarrow> Coord \<Rightarrow> bool" where
  "is_engaged_in_combat g s =
     (let enemy = (if next_player g = Attacker then Defender else Attacker)
      in list_ex (\<lambda>adj. case get g adj of
                           None \<Rightarrow> False
                         | Some dst_unit \<Rightarrow> player dst_unit = enemy)
                 (iter_adjacent s))"

definition is_movement_direction_valid :: "Game \<Rightarrow> Unit \<Rightarrow> CoordPair \<Rightarrow> bool option" where
  "is_movement_direction_valid g unit coords =
     (let movementDirection = get_direction coords
      in is_valid_movement unit (next_player g) movementDirection)"

text \<open>
  \<open>is_valid_move\<close> returns the pair \<open>(is_valid, action_type)\<close>, the action type being
  Python's \<open>None\<close> on rejection. Its last two tests are each other's negation, so the
  second is the \<open>else\<close> of the first.
\<close>

definition is_valid_move :: "Game \<Rightarrow> CoordPair \<Rightarrow> bool \<times> ActionType option" where
  "is_valid_move g coords =
     (if \<not> is_valid_coord g (src coords) \<or> \<not> is_valid_coord g (dst coords) then (False, None)
      else case get g (src coords) of
        None \<Rightarrow> (False, None)
      | Some src_unit \<Rightarrow>
          if player src_unit \<noteq> next_player g then (False, None)
          else if are_coords_equal coords then (True, Some SelfDestruct)
          else if \<not> is_adjacent coords then (False, None)
          else (case get g (dst coords) of
                  None \<Rightarrow>
                    (let engaged = is_engaged_in_combat g (src coords)
                     in if engaged \<and> utype src_unit \<noteq> Tech \<and> utype src_unit \<noteq> Virus
                        then (False, None)
                        else if \<not> truthy (is_movement_direction_valid g src_unit coords)
                        then (False, None)
                        else (True, Some Move))
                | Some dst_unit \<Rightarrow>
                    if player dst_unit = next_player g then
                      (if utype src_unit = Tech \<or> utype src_unit = AI then
                         (if \<not> is_repair_zero src_unit dst_unit \<and> \<not> has_full_health dst_unit
                          then (True, Some Repair)
                          else (False, None))
                       else (False, None))
                    else (True, Some Attack)))"

definition do_move_action :: "Game \<Rightarrow> CoordPair \<Rightarrow> ActionType option \<Rightarrow> error + Game" where
  "do_move_action g coords action_type =
     (case action_type of
        Some SelfDestruct \<Rightarrow> perform_self_distruct g (src coords)
      | Some Move \<Rightarrow>
          Inr (set_coord (set_coord g (dst coords) (get g (src coords))) (src coords) None)
      | Some Attack \<Rightarrow> perform_fight g coords
      | Some Repair \<Rightarrow> perform_repair g coords
      | None \<Rightarrow> Inr g)"

text \<open>
  \<open>perform_move\<close> returns the triple of the source together with the game after the call.
\<close>

definition perform_move ::
  "Game \<Rightarrow> CoordPair \<Rightarrow> error + (Game \<times> bool \<times> ActionType option \<times> string)" where
  "perform_move g coords =
     (let (is_valid, action_type) = is_valid_move g coords
      in if is_valid then
           (case do_move_action g coords action_type of
              Inl e \<Rightarrow> Inl e
            | Inr g' \<Rightarrow> Inr (g', True, action_type, []))
         else Inr (g, False, None, ''invalid move''))"

definition next_turn :: "Game \<Rightarrow> Game" where
  "next_turn g = g\<lparr>next_player := Player_next (next_player g),
                   turns_played := turns_played g + 1\<rparr>"

text \<open>\<open>Game(options=opts)\<close>: the dataclass defaults followed by \<open>__post_init__\<close>.\<close>

definition mk_Unit :: "Player \<Rightarrow> UnitType \<Rightarrow> Unit" where
  "mk_Unit p t = \<lparr> player = p, utype = t, health = 9 \<rparr>"

definition new_Game :: "Options \<Rightarrow> Game" where
  "new_Game opts =
     (let d = dim opts;
          md = d - 1;
          g0 = \<lparr> board = replicate (nat d) (replicate (nat d) None),
                 next_player = Attacker, turns_played = 0, options = opts,
                 attacker_has_ai = True, defender_has_ai = True \<rparr>
      in fold (\<lambda>(c, u) acc. set_coord acc c (Some u))
           [(mk_Coord 0 0, mk_Unit Defender AI),
            (mk_Coord 1 0, mk_Unit Defender Tech),
            (mk_Coord 0 1, mk_Unit Defender Tech),
            (mk_Coord 2 0, mk_Unit Defender Firewall),
            (mk_Coord 0 2, mk_Unit Defender Firewall),
            (mk_Coord 1 1, mk_Unit Defender Program),
            (mk_Coord md md, mk_Unit Attacker AI),
            (mk_Coord (md - 1) md, mk_Unit Attacker Virus),
            (mk_Coord md (md - 1), mk_Unit Attacker Virus),
            (mk_Coord (md - 2) md, mk_Unit Attacker Program),
            (mk_Coord md (md - 2), mk_Unit Attacker Program),
            (mk_Coord (md - 1) (md - 1), mk_Unit Attacker Firewall)]
           g0)"

subsection \<open>Game: termination\<close>

definition has_winner :: "Game \<Rightarrow> Player option" where
  "has_winner g =
     (if (case max_turns (options g) of None \<Rightarrow> False | Some m \<Rightarrow> turns_played g \<ge> m)
      then Some Defender
      else if attacker_has_ai g then
        (if defender_has_ai g then None else Some Attacker)
      else if defender_has_ai g then Some Defender
      else Some Defender)"

definition is_finished :: "Game \<Rightarrow> bool" where
  "is_finished g = (has_winner g \<noteq> None)"

subsection \<open>Game: enumeration of units and candidate moves\<close>

definition player_units :: "Game \<Rightarrow> Player \<Rightarrow> (Coord \<times> Unit) list" where
  "player_units g p =
     concat (map (\<lambda>coord. case get g coord of
                              None \<Rightarrow> []
                            | Some unit \<Rightarrow> if player unit = p then [(coord, unit)] else [])
                 (iter_rectangle (from_dim (dim (options g)))))"

definition get_all_units :: "Game \<Rightarrow> (Coord \<times> Unit) list" where
  "get_all_units g =
     concat (map (\<lambda>coord. case get g coord of
                              None \<Rightarrow> []
                            | Some unit \<Rightarrow> [(coord, unit)])
                 (iter_rectangle (from_dim (dim (options g)))))"

text \<open>
  \<open>move_candidates\<close>: for every unit of the player to move, the valid actions towards its
  four neighbours, then its self-destruction.
\<close>

definition move_candidates :: "Game \<Rightarrow> (CoordPair \<times> ActionType option) list" where
  "move_candidates g =
     concat (map (\<lambda>(s, _).
                    concat (map (\<lambda>d. let move = \<lparr> src = s, dst = d \<rparr>;
                                         (is_valid, action_type) = is_valid_move g move
                                     in if is_valid then [(move, action_type)] else [])
                                (iter_adjacent s))
                    @ [(\<lparr> src = s, dst = s \<rparr>, Some SelfDestruct)])
                 (player_units g (next_player g)))"

subsection \<open>Evaluation\<close>

text \<open>
  \<open>calculate_heuristic\<close> has a \<open>return\<close> only under its three \<open>if\<close>s; for any other
  heuristic name the function ends without one and Python returns \<open>None\<close>.
\<close>

definition calculate_heuristic :: "Game \<Rightarrow> int option" where
  "calculate_heuristic g =
     (if heuristic (options g) = Some ''e0'' then
        Some (fold (\<lambda>(_, unit) score.
                      let score1 = (if player unit = Attacker then
                                      (if utype unit = AI then score + 9999 else score + 3)
                                    else score)
                      in if player unit = Defender then
                           (if utype unit = AI then score1 - 9999 else score1 - 3)
                         else score1)
                   (get_all_units g) 0)
      else if heuristic (options g) = Some ''e1'' then Some 0
      else if heuristic (options g) = Some ''e2'' then
        Some (fold (\<lambda>(_, unit) score.
                      let score1 = (if player unit = Attacker then
                                      (if utype unit = AI then score + 1000 * health unit
                                       else if utype unit = Virus then score + 30 * health unit
                                       else score + 10 * health unit)
                                    else score)
                      in if player unit = Defender then
                           (if utype unit = AI then score1 - 1000 * health unit
                            else if utype unit = Tech then score1 - 30 * health unit
                            else score1 - 10 * health unit)
                         else score1)
                   (get_all_units g) 0)
      else None)"

subsection \<open>Playing a sequence of moves\<close>

text \<open>
  One pass of the turn loop (\<open>human_turn\<close>, \<open>computer_turn\<close>) per requested move:
  \<open>perform_move\<close>, followed by \<open>next_turn\<close> when the move was accepted. A rejected move
  leaves the game as it is.
\<close>

fun play :: "Game \<Rightarrow> CoordPair list \<Rightarrow> error + Game" where
  "play g [] = Inr g"
| "play g (mv # mvs) =
     (case perform_move g mv of
        Inl e \<Rightarrow> Inl e
      | Inr (g', success, _, _) \<Rightarrow> play (if success then next_turn g' else g') mvs)"

subsection \<open>Well-formed games\<close>

text \<open>
  \<open>board_shape\<close>: the board is \<open>dim\<close> rows of \<open>dim\<close> cells, as \<open>__post_init__\<close> builds it.
  \<open>units_ok\<close>: every unit standing on the board has a health from 1 to 9.
\<close>

definition board_shape :: "Game \<Rightarrow> bool" where
  "board_shape g =
     (length (board g) = nat (dim (options g))
      \<and> list_all (\<lambda>r. length r = nat (dim (options g))) (board g))"

definition unit_ok :: "Unit option \<Rightarrow> bool" where
  "unit_ok cell = (case cell of None \<Rightarrow> True | Some u \<Rightarrow> 0 < health u \<and> health u \<le> 9)"

definition units_ok :: "Game \<Rightarrow> bool" where
  "units_ok g = list_all (list_all unit_ok) (board g)"

text \<open>What the sweep of \<open>remove_dead\<close> leaves in the cell of a unit.\<close>

definition swept :: "Unit \<Rightarrow> Unit option" where
  "swept u = (if is_alive u then Some u else None)"

subsection \<open>Search\<close>

text \<open>
  The values that the two search functions compare: Python integers, the two floats
  \<open>float('-inf')\<close> and \<open>float('inf')\<close>, \<open>None\<close> (what \<open>calculate_heuristic\<close> returns
  for an unknown heuristic) and a bound method object (what the expression
  \<open>node.calculate_heuristic\<close>, written without call parentheses, evaluates to).
  Ordering comparisons are defined between numbers only; any other operand raises
  \<open>TypeError\<close>.
\<close>

datatype pyval = PInt int | PNegInf | PPosInf | PNone | PMethod

definition MAX_HEURISTIC_SCORE :: int where
  "MAX_HEURISTIC_SCORE = 2000000000"

definition MIN_HEURISTIC_SCORE :: int where
  "MIN_HEURISTIC_SCORE = - 2000000000"

fun py_lt :: "pyval \<Rightarrow> pyval \<Rightarrow> error + bool" where
  "py_lt (PInt a) (PInt b) = Inr (a < b)"
| "py_lt (PInt a) PPosInf = Inr True"
| "py_lt (PInt a) PNegInf = Inr False"
| "py_lt PNegInf (PInt b) = Inr True"
| "py_lt PNegInf PPosInf = Inr True"
| "py_lt PNegInf PNegInf = Inr False"
| "py_lt PPosInf (PInt b) = Inr False"
| "py_lt PPosInf PPosInf = Inr False"
| "py_lt PPosInf PNegInf = Inr False"
| "py_lt _ _ = Inl TypeError"

definition py_gt :: "pyval \<Rightarrow> pyval \<Rightarrow> error + bool" where
  "py_gt a b = py_lt b a"

definition py_le :: "pyval \<Rightarrow> pyval \<Rightarrow> error + bool" where
  "py_le a b = (case py_lt b a of Inl e \<Rightarrow> Inl e | Inr r \<Rightarrow> Inr (\<not> r))"

text \<open>The built-ins \<open>max(a, b)\<close> and \<open>min(a, b)\<close>: the first argument unless the second beats it.\<close>

definition py_max :: "pyval \<Rightarrow> pyval \<Rightarrow> error + pyval" where
  "py_max a b = (case py_gt b a of Inl e \<Rightarrow> Inl e | Inr r \<Rightarrow> Inr (if r then b else a))"

definition py_min :: "pyval \<Rightarrow> pyval \<Rightarrow> error + pyval" where
  "py_min a b = (case py_lt b a of Inl e \<Rightarrow> Inl e | Inr r \<Rightarrow> Inr (if r then b else a))"

definition heuristic_value :: "Game \<Rightarrow> pyval" where
  "heuristic_value g = (case calculate_heuristic g of None \<Rightarrow> PNone | Some s \<Rightarrow> PInt s)"

text \<open>
  The loops of \<open>search\<close> over \<open>get_child_states\<close>. Each candidate is applied to a clone of
  the node (here: to the node's value), the turn is advanced, and \<open>rec\<close> is the recursive
  call on the child. \<open>value\<close> and \<open>best_move\<close> are the loop variables. The counters
  \<open>nodes_explored\<close>, \<open>total_depth\<close>, \<open>num_non_leaf_nodes\<close> and
  \<open>evaluations_per_depth\<close> only feed the printed statistics and are left out.
\<close>

fun search_max_loop ::
  "(Game \<Rightarrow> error + (pyval \<times> CoordPair option)) \<Rightarrow> Game
   \<Rightarrow> (CoordPair \<times> ActionType option) list \<Rightarrow> pyval \<Rightarrow> CoordPair option
   \<Rightarrow> error + (pyval \<times> CoordPair option)" where
  "search_max_loop rec state [] val best_move = Inr (val, best_move)"
| "search_max_loop rec state ((mv, action_type) # rest) val best_move =
     (case do_move_action state mv action_type of
        Inl e \<Rightarrow> Inl e
      | Inr child_state \<Rightarrow>
          (case rec (next_turn child_state) of
             Inl e \<Rightarrow> Inl e
           | Inr (child_value, _) \<Rightarrow>
               (case py_gt child_value val of
                  Inl e \<Rightarrow> Inl e
                | Inr better \<Rightarrow>
                    if better then search_max_loop rec state rest child_value (Some mv)
                    else search_max_loop rec state rest val best_move)))"

fun search_min_loop ::
  "(Game \<Rightarrow> error + (pyval \<times> CoordPair option)) \<Rightarrow> Game
   \<Rightarrow> (CoordPair \<times> ActionType option) list \<Rightarrow> pyval \<Rightarrow> CoordPair option
   \<Rightarrow> error + (pyval \<times> CoordPair option)" where
  "search_min_loop rec state [] val best_move = Inr (val, best_move)"
| "search_min_loop rec state ((mv, action_type) # rest) val best_move =
     (case do_move_action state mv action_type of
        Inl e \<Rightarrow> Inl e
      | Inr child_state \<Rightarrow>
          (case rec (next_turn child_state) of
             Inl e \<Rightarrow> Inl e
           | Inr (child_value, _) \<Rightarrow>
               (case py_lt child_value val of
                  Inl e \<Rightarrow> Inl e
                | Inr better \<Rightarrow>
                    if better then search_min_loop rec state rest child_value (Some mv)
                    else search_min_loop rec state rest val best_move)))"

text \<open>
  \<open>search\<close>, the plain minimax of \<open>get_best_move_minimax\<close>. Its free variables become
  parameters: \<open>self_turns_played\<close> is \<open>self.turns_played\<close> of the root, and \<open>in_time\<close> is
  the reading of the wall clock, \<open>True\<close> while the time budget is not exhausted (the test
  \<open>time() - start_time + buffer_time > self.options.max_time\<close> is \<open>\<not> in_time\<close>). The first
  argument bounds the depth of the recursion, as the interpreter's recursion limit does:
  at 0 the call raises \<open>RecursionError\<close>.
\<close>

fun search ::
  "nat \<Rightarrow> bool \<Rightarrow> int \<Rightarrow> Game \<Rightarrow> int \<Rightarrow> int \<Rightarrow> bool \<Rightarrow> error + (pyval \<times> CoordPair option)" where
  "search 0 in_time self_turns_played state currentDepth maxDepth maximizingPlayer =
     Inl RecursionError"
| "search (Suc fuel) in_time self_turns_played state currentDepth maxDepth maximizingPlayer =
     (if currentDepth - self_turns_played = maxDepth \<or> \<not> in_time \<or> is_finished state
      then Inr (heuristic_value state, None)
      else if maximizingPlayer then
        search_max_loop
          (\<lambda>child_state. search fuel in_time self_turns_played child_state (currentDepth + 1)
                            maxDepth False)
          state (move_candidates state) PNegInf None
      else
        search_min_loop
          (\<lambda>child_state. search fuel in_time self_turns_played child_state (currentDepth + 1)
                            maxDepth True)
          state (move_candidates state) PPosInf None)"

text \<open>
  The loops of \<open>alpha_beta_search\<close>. \<open>bestMove\<close> has no value before its first
  assignment; the \<open>return\<close> after the loop then raises \<open>UnboundLocalError\<close>. The
  \<open>break\<close> leaves the loop for that same \<open>return\<close>.
\<close>

definition ab_return :: "pyval \<Rightarrow> CoordPair option \<Rightarrow> error + (pyval \<times> CoordPair option)" where
  "ab_return bestValue bestMove =
     (case bestMove of None \<Rightarrow> Inl UnboundLocalError | Some mv \<Rightarrow> Inr (bestValue, Some mv))"

fun ab_max_loop ::
  "(Game \<Rightarrow> pyval \<Rightarrow> pyval \<Rightarrow> error + (pyval \<times> CoordPair option)) \<Rightarrow> Game
   \<Rightarrow> (CoordPair \<times> ActionType option) list \<Rightarrow> pyval \<Rightarrow> CoordPair option \<Rightarrow> pyval \<Rightarrow> pyval
   \<Rightarrow> error + (pyval \<times> CoordPair option)" where
  "ab_max_loop rec node [] bestValue bestMove alphaVal betaVal = ab_return bestValue bestMove"
| "ab_max_loop rec node ((mv, action_type) # rest) bestValue bestMove alphaVal betaVal =
     (case do_move_action node mv action_type of
        Inl e \<Rightarrow> Inl e
      | Inr child_state \<Rightarrow>
          (case rec (next_turn child_state) alphaVal betaVal of
             Inl e \<Rightarrow> Inl e
           | Inr (child_value, _) \<Rightarrow>
               (case py_lt bestValue child_value of
                  Inl e \<Rightarrow> Inl e
                | Inr better \<Rightarrow>
                    (let bestValue1 = (if better then child_value else bestValue);
                         bestMove1 = (if better then Some mv else bestMove)
                     in case py_max bestValue1 alphaVal of
                          Inl e \<Rightarrow> Inl e
                        | Inr alphaVal1 \<Rightarrow>
                            (case py_le betaVal alphaVal1 of
                               Inl e \<Rightarrow> Inl e
                             | Inr prune \<Rightarrow>
                                 if prune then ab_return bestValue1 bestMove1
                                 else ab_max_loop rec node rest bestValue1 bestMove1
                                        alphaVal1 betaVal)))))"

fun ab_min_loop ::
  "(Game \<Rightarrow> pyval \<Rightarrow> pyval \<Rightarrow> error + (pyval \<times> CoordPair option)) \<Rightarrow> Game
   \<Rightarrow> (CoordPair \<times> ActionType option) list \<Rightarrow> pyval \<Rightarrow> CoordPair option \<Rightarrow> pyval \<Rightarrow> pyval
   \<Rightarrow> error + (pyval \<times> CoordPair option)" where
  "ab_min_loop rec node [] bestValue bestMove alphaVal betaVal = ab_return bestValue bestMove"
| "ab_min_loop rec node ((mv, action_type) # rest) bestValue bestMove alphaVal betaVal =
     (case do_move_action node mv action_type of
        Inl e \<Rightarrow> Inl e
      | Inr child_state \<Rightarrow>
          (case rec (next_turn child_state) alphaVal betaVal of
             Inl e \<Rightarrow> Inl e
           | Inr (child_value, _) \<Rightarrow>
               (case py_gt bestValue child_value of
                  Inl e \<Rightarrow> Inl e
                | Inr better \<Rightarrow>
                    (let bestValue1 = (if better then child_value else bestValue);
                         bestMove1 = (if better then Some mv else bestMove)
                     in case py_min bestValue1 betaVal of
                          Inl e \<Rightarrow> Inl e
                        | Inr betaVal1 \<Rightarrow>
                            (case py_le betaVal1 alphaVal of
                               Inl e \<Rightarrow> Inl e
                             | Inr prune \<Rightarrow>
                                 if prune then ab_return bestValue1 bestMove1
                                 else ab_min_loop rec node rest bestValue1 bestMove1
                                        alphaVal betaVal1)))))"

text \<open>
  \<open>alpha_beta_search\<close>. Its depth test reads \<open>node.options.max_depth\<close>, not its
  parameter \<open>maxDepth\<close>, and its leaf value is the expression
  \<open>node.calculate_heuristic\<close> without a call: the method object itself.
\<close>

fun alpha_beta_search ::
  "nat \<Rightarrow> bool \<Rightarrow> int \<Rightarrow> bool \<Rightarrow> int \<Rightarrow> int \<Rightarrow> Game \<Rightarrow> pyval \<Rightarrow> pyval
   \<Rightarrow> error + (pyval \<times> CoordPair option)" where
  "alpha_beta_search 0 in_time self_turns_played max_player curDepth maxDepth node alphaVal betaVal =
     Inl RecursionError"
| "alpha_beta_search (Suc fuel) in_time self_turns_played max_player curDepth maxDepth node
     alphaVal betaVal =
     (if Some (curDepth - self_turns_played) = max_depth (options node) \<or> \<not> in_time
         \<or> is_finished node
      then Inr (PMethod, None)
      else if max_player then
        ab_max_loop
          (\<lambda>child_state a b. alpha_beta_search fuel in_time self_turns_played False
                                (curDepth + 1) maxDepth child_state a b)
          node (move_candidates node) PNegInf None alphaVal betaVal
      else
        ab_min_loop
          (\<lambda>child_state a b. alpha_beta_search fuel in_time self_turns_played True
                                (curDepth + 1) maxDepth child_state a b)
          node (move_candidates node) PPosInf None alphaVal betaVal)"

text \<open>
  The iterative deepening of \<open>get_best_move_minimax\<close>: one bounded search per depth limit
  from 1 to \<open>options.max_depth\<close>, the result of the last one being returned. When the
  loop body never runs, \<open>score\<close> has no value at the \<open>return\<close>. The two averages of the
  returned tuple are statistics and are left out.
\<close>

fun deepening ::
  "(int \<Rightarrow> error + (pyval \<times> CoordPair option)) \<Rightarrow> int list
   \<Rightarrow> (pyval \<times> CoordPair option) option \<Rightarrow> error + (pyval \<times> CoordPair option)" where
  "deepening run [] result = (case result of None \<Rightarrow> Inl UnboundLocalError | Some r \<Rightarrow> Inr r)"
| "deepening run (depth_limit # rest) result =
     (case run depth_limit of Inl e \<Rightarrow> Inl e | Inr r \<Rightarrow> deepening run rest (Some r))"

definition get_best_move_minimax ::
  "nat \<Rightarrow> bool \<Rightarrow> Game \<Rightarrow> error + (pyval \<times> CoordPair option)" where
  "get_best_move_minimax fuel in_time self =
     (let maximize = (next_player self = Attacker)
      in if \<not> in_time then Inl UnboundLocalError
         else case max_depth (options self) of
           None \<Rightarrow> Inl TypeError
         | Some limit \<Rightarrow>
             deepening
               (\<lambda>depth_limit.
                  if \<not> alpha_beta (options self)
                  then search fuel in_time (turns_played self) self (turns_played self)
                         depth_limit maximize
                  else alpha_beta_search fuel in_time (turns_played self) maximize
                         (turns_played self) depth_limit self
                         (PInt MIN_HEURISTIC_SCORE) (PInt MAX_HEURISTIC_SCORE))
               [1 .. limit] None)"

subsection \<open>Concrete states used below\<close>

definition initial_game :: Game where
  "initial_game = new_Game default_Options"

definition mk_CoordPair :: "int \<Rightarrow> int \<Rightarrow> int \<Rightarrow> int \<Rightarrow> CoordPair" where
  "mk_CoordPair row0 col0 row1 col1 = \<lparr> src = mk_Coord row0 col0, dst = mk_Coord row1 col1 \<rparr>"

definition unit_of :: "Player \<Rightarrow> UnitType \<Rightarrow> int \<Rightarrow> Unit option" where
  "unit_of p t h = Some \<lparr> player = p, utype = t, health = h \<rparr>"

text \<open>
  The default 5 by 5 game after the Attacker's first action, the self-destruction of its
  own Command unit at E4 (row 4, column 4).
\<close>

definition after_ai_self_destruct :: Game where
  "after_ai_self_destruct =
     \<lparr> board =
         [[unit_of Defender AI 9, unit_of Defender Tech 9, unit_of Defender Firewall 9, None, None],
          [unit_of Defender Tech 9, unit_of Defender Program 9, None, None, None],
          [unit_of Defender Firewall 9, None, None, None, unit_of Attacker Program 9],
          [None, None, None, unit_of Attacker Firewall 7, unit_of Attacker Virus 7],
          [None, None, unit_of Attacker Program 9, unit_of Attacker Virus 7, None]],
       next_player = Attacker, turns_played = 0, options = default_Options,
       attacker_has_ai = False, defender_has_ai = True \<rparr>"

text \<open>
  The default game after three moves (Attacker E2 to D2, Defender B1 to B2, Attacker D2
  to C2): the Defender's Program at B2 and the Attacker's Program at C2 are neighbours,
  both at health 9, and the Defender is to move.
\<close>

definition programs_face_to_face :: Game where
  "programs_face_to_face =
     \<lparr> board =
         [[unit_of Defender AI 9, unit_of Defender Tech 9, unit_of Defender Firewall 9, None, None],
          [unit_of Defender Tech 9, None, unit_of Defender Program 9, None, None],
          [unit_of Defender Firewall 9, None, unit_of Attacker Program 9, None,
           unit_of Attacker Program 9],
          [None, None, None, unit_of Attacker Firewall 9, unit_of Attacker Virus 9],
          [None, None, None, unit_of Attacker Virus 9, unit_of Attacker AI 9]],
       next_player = Defender, turns_played = 3, options = default_Options,
       attacker_has_ai = True, defender_has_ai = True \<rparr>"

text \<open>
  The same position two attacks later (Defender B2 on C2, Attacker C2 on B2): both
  Programs are at health 3 and the Defender is to move. \<open>programs_destroyed\<close> is the game
  after the Defender's next attack from B2 on C2.
\<close>

definition programs_at_3 :: Game where
  "programs_at_3 =
     \<lparr> board =
         [[unit_of Defender AI 9, unit_of Defender Tech 9, unit_of Defender Firewall 9, None, None],
          [unit_of Defender Tech 9, None, unit_of Defender Program 3, None, None],
          [unit_of Defender Firewall 9, None, unit_of Attacker Program 3, None,
           unit_of Attacker Program 9],
          [None, None, None, unit_of Attacker Firewall 9, unit_of Attacker Virus 9],
          [None, None, None, unit_of Attacker Virus 9, unit_of Attacker AI 9]],
       next_player = Defender, turns_played = 5, options = default_Options,
       attacker_has_ai = True, defender_has_ai = True \<rparr>"

definition programs_destroyed :: Game where
  "programs_destroyed =
     \<lparr> board =
         [[unit_of Defender AI 9, unit_of Defender Tech 9, unit_of Defender Firewall 9, None, None],
          [unit_of Defender Tech 9, None, None, None, None],
          [unit_of Defender Firewall 9, None, None, None, unit_of Attacker Program 9],
          [None, None, None, unit_of Attacker Firewall 9, unit_of Attacker Virus 9],
          [None, None, None, unit_of Attacker Virus 9, unit_of Attacker AI 9]],
       next_player = Defender, turns_played = 5, options = default_Options,
       attacker_has_ai = True, defender_has_ai = True \<rparr>"

text \<open>
  The default game after the Attacker's Virus at E3 has self-destructed and the Defender
  has moved its Program from B1 to B2: the Attacker's units around E3 are at health 7 and
  the Attacker is to move.
\<close>

definition after_virus_self_destruct :: Game where
  "after_virus_self_destruct =
     \<lparr> board =
         [[unit_of Defender AI 9, unit_of Defender Tech 9, unit_of Defender Firewall 9, None, None],
          [unit_of Defender Tech 9, None, unit_of Defender Program 9, None, None],
          [unit_of Defender Firewall 9, None, None, None, unit_of Attacker Program 9],
          [None, None, None, unit_of Attacker Firewall 7, unit_of Attacker Virus 7],
          [None, None, unit_of Attacker Program 7, None, unit_of Attacker AI 7]],
       next_player = Attacker, turns_played = 2, options = default_Options,
       attacker_has_ai = True, defender_has_ai = True \<rparr>"

text \<open>
  The game that \<open>main\<close> creates for a computer against a computer, with the default
  heuristic \<open>e0\<close>, a given \<open>max_depth\<close> and a given \<open>alpha_beta\<close> switch.
\<close>

definition search_game :: "int \<Rightarrow> bool \<Rightarrow> Game" where
  "search_game depth ab =
     new_Game (default_Options\<lparr> game_type := CompVsComp, heuristic := Some ''e0'',
                                max_depth := Some depth, alpha_beta := ab \<rparr>)"

section \<open>Board access lemmas\<close>

lemma coord_eq_iff: "((c::Coord) = c') = (row c = row c' \<and> col c = col c')"
  by (cases c; cases c') simp

lemma valid_set_coord [simp]: "is_valid_coord (set_coord g c u) c' = is_valid_coord g c'"
  by (simp add: set_coord_def is_valid_coord_def)

lemma set_coord_fields [simp]:
  "options (set_coord g c u) = options g"
  "next_player (set_coord g c u) = next_player g"
  "turns_played (set_coord g c u) = turns_played g"
  "attacker_has_ai (set_coord g c u) = attacker_has_ai g"
  "defender_has_ai (set_coord g c u) = defender_has_ai g"
  by (simp_all add: set_coord_def)

lemma valid_in_range:
  assumes "board_shape g" and "is_valid_coord g c"
  shows "nat (row c) < length (board g)" and "nat (col c) < length (board g ! nat (row c))"
proof -
  from assms(2) have b: "0 \<le> row c" "row c < dim (options g)" "0 \<le> col c" "col c < dim (options g)"
    by (auto simp: is_valid_coord_def Let_def split: if_splits)
  from assms(1) have len: "length (board g) = nat (dim (options g))"
    by (simp add: board_shape_def)
  with b show r: "nat (row c) < length (board g)" by simp
  from assms(1) r have "length (board g ! nat (row c)) = nat (dim (options g))"
    by (simp add: board_shape_def list_all_length)
  with b show "nat (col c) < length (board g ! nat (row c))" by simp
qed

lemma board_set_coord:
  "is_valid_coord g c \<Longrightarrow>
   board (set_coord g c u) = (board g)[nat (row c) := (board g ! nat (row c))[nat (col c) := u]]"
  by (simp add: set_coord_def)

lemma board_shape_set_coord [simp]:
  assumes "board_shape g" shows "board_shape (set_coord g c u)"
proof (cases "is_valid_coord g c")
  case False then show ?thesis using assms by (simp add: set_coord_def)
next
  case True
  from assms have len: "length (board g) = nat (dim (options g))"
    and rows: "\<And>i. i < length (board g) \<Longrightarrow> length (board g ! i) = nat (dim (options g))"
    by (simp_all add: board_shape_def list_all_length)
  have "length (board (set_coord g c u) ! i) = nat (dim (options g))"
    if "i < length (board g)" for i
    using that rows [of i] valid_in_range [OF assms True]
    by (cases "i = nat (row c)") (simp_all add: board_set_coord [OF True])
  then show ?thesis using len
    by (simp add: board_shape_def list_all_length board_set_coord [OF True])
qed

lemma get_set_coord:
  assumes "board_shape g"
  shows "get (set_coord g c u) c' = (if is_valid_coord g c \<and> c = c' then u else get g c')"
proof (cases "is_valid_coord g c")
  case False then show ?thesis by (simp add: set_coord_def)
next
  case True
  note r = valid_in_range [OF assms True]
  show ?thesis
  proof (cases "is_valid_coord g c'")
    case False then show ?thesis using True by (auto simp: get_def)
  next
    case v': True
    note r' = valid_in_range [OF assms v']
    from True v' have nn: "0 \<le> row c" "0 \<le> col c" "0 \<le> row c'" "0 \<le> col c'"
      by (auto simp: is_valid_coord_def Let_def split: if_splits)
    have eq: "(c = c') = (nat (row c) = nat (row c') \<and> nat (col c) = nat (col c'))"
      using nn by (auto simp: coord_eq_iff)
    show ?thesis using True v' r r'
      by (simp add: get_def board_set_coord [OF True] nth_list_update eq)
  qed
qed

section \<open>Sweeping and health modification\<close>

lemma remove_dead_fields [simp]:
  "options (remove_dead g c) = options g"
  "next_player (remove_dead g c) = next_player g"
  "turns_played (remove_dead g c) = turns_played g"
  by (simp_all add: remove_dead_def Let_def split: option.splits)

lemma valid_remove_dead [simp]: "is_valid_coord (remove_dead g c) c' = is_valid_coord g c'"
  by (simp add: is_valid_coord_def)

lemma board_remove_dead:
  "board (remove_dead g c) =
     board (case get g c of None \<Rightarrow> g
            | Some u \<Rightarrow> if is_alive u then g else set_coord g c None)"
  by (simp add: remove_dead_def Let_def split: option.splits)

lemma board_shape_cong: "board g' = board g \<Longrightarrow> options g' = options g \<Longrightarrow> board_shape g' = board_shape g"
  by (simp add: board_shape_def)

lemma get_cong: "board g' = board g \<Longrightarrow> options g' = options g \<Longrightarrow> get g' c = get g c"
  by (simp add: get_def is_valid_coord_def)

lemma board_shape_remove_dead [simp]:
  assumes "board_shape g" shows "board_shape (remove_dead g c)"
proof -
  let ?h = "case get g c of None \<Rightarrow> g | Some u \<Rightarrow> if is_alive u then g else set_coord g c None"
  have "board_shape ?h" using assms by (simp split: option.splits)
  moreover have "options ?h = options g" by (simp split: option.splits)
  ultimately show ?thesis
    using board_shape_cong [of "remove_dead g c" ?h] by (simp add: board_remove_dead)
qed


lemma get_valid: "get g c = Some u \<Longrightarrow> is_valid_coord g c"
  by (simp add: get_def split: if_splits)

lemma get_remove_dead:
  assumes "board_shape g"
  shows "get (remove_dead g c) c' =
           (if c = c' then (case get g c of None \<Rightarrow> None | Some u \<Rightarrow> swept u) else get g c')"
proof -
  let ?h = "case get g c of None \<Rightarrow> g | Some u \<Rightarrow> if is_alive u then g else set_coord g c None"
  have o: "options ?h = options g" by (simp split: option.splits)
  have "get (remove_dead g c) c' = get ?h c'"
    by (rule get_cong) (simp_all add: board_remove_dead o)
  also have "\<dots> = (if c = c' then (case get g c of None \<Rightarrow> None | Some u \<Rightarrow> swept u) else get g c')"
    using assms by (auto simp: get_set_coord swept_def dest: get_valid split: option.splits)
  finally show ?thesis .
qed

lemma Game_mod_health_fields [simp]:
  "options (Game_mod_health g c d) = options g"
  "next_player (Game_mod_health g c d) = next_player g"
  "turns_played (Game_mod_health g c d) = turns_played g"
  by (simp_all add: Game_mod_health_def split: option.splits)

lemma valid_Game_mod_health [simp]:
  "is_valid_coord (Game_mod_health g c d) c' = is_valid_coord g c'"
  by (simp add: is_valid_coord_def)

lemma board_shape_Game_mod_health [simp]:
  "board_shape g \<Longrightarrow> board_shape (Game_mod_health g c d)"
  by (simp add: Game_mod_health_def split: option.splits)

lemma get_Game_mod_health:
  assumes "board_shape g"
  shows "get (Game_mod_health g c d) c' =
           (if c = c' then (case get g c of None \<Rightarrow> None
                            | Some u \<Rightarrow> swept (Unit_mod_health u d))
            else get g c')"
  using assms
  by (auto simp: Game_mod_health_def get_remove_dead get_set_coord dest: get_valid
           split: option.splits)

lemma units_ok_iff:
  assumes "board_shape g"
  shows "units_ok g = (\<forall>c. unit_ok (get g c))"
proof
  assume ok: "units_ok g"
  show "\<forall>c. unit_ok (get g c)"
  proof
    fix c
    show "unit_ok (get g c)"
    proof (cases "is_valid_coord g c")
      case False then show ?thesis by (simp add: get_def unit_ok_def)
    next
      case True
      note r = valid_in_range [OF assms True]
      from ok r show ?thesis by (simp add: units_ok_def list_all_length get_def True)
    qed
  qed
next
  assume a: "\<forall>c. unit_ok (get g c)"
  from assms have len: "length (board g) = nat (dim (options g))"
    and rows: "\<And>i. i < length (board g) \<Longrightarrow> length (board g ! i) = nat (dim (options g))"
    by (simp_all add: board_shape_def list_all_length)
  have "unit_ok (board g ! i ! j)" if "i < length (board g)" "j < length (board g ! i)" for i j
  proof -
    let ?c = "mk_Coord (int i) (int j)"
    from that len rows [of i] have "int i < dim (options g)" "int j < dim (options g)"
      by linarith+
    then have "is_valid_coord g ?c"
      by (simp add: is_valid_coord_def mk_Coord_def Let_def)
    then have "get g ?c = board g ! i ! j" by (simp add: get_def mk_Coord_def)
    with a [rule_format, of ?c] show ?thesis by simp
  qed
  then show "units_ok g" by (simp add: units_ok_def list_all_length)
qed

lemma unit_ok_swept_mod: "unit_ok (swept (Unit_mod_health u d))"
  by (simp add: unit_ok_def swept_def Unit_mod_health_def is_alive_def Let_def)

lemma units_ok_Game_mod_health:
  assumes "board_shape g" and "units_ok g"
  shows "units_ok (Game_mod_health g c d)"
proof -
  have "unit_ok (get (Game_mod_health g c d) c')" for c'
    using assms units_ok_iff [OF assms(1)]
    by (simp add: get_Game_mod_health unit_ok_swept_mod split: option.splits)
       (simp add: unit_ok_def)
  then show ?thesis
    by (simp add: units_ok_iff [OF board_shape_Game_mod_health [OF assms(1)]])
qed

section \<open>The neighbourhood loop of self-destruction\<close>

lemma set_iter_range:
  "(d \<in> set (iter_range c n)) =
     (row c - n \<le> row d \<and> row d \<le> row c + n \<and> col c - n \<le> col d \<and> col d \<le> col c + n)"
proof -
  have "(d \<in> set (iter_range c n)) =
          (\<exists>r\<in>{row c - n .. row c + n}. \<exists>k\<in>{col c - n .. col c + n}. d = mk_Coord r k)"
    by (auto simp: iter_range_def)
  also have "\<dots> = (row d \<in> {row c - n .. row c + n} \<and> col d \<in> {col c - n .. col c + n})"
    by (auto simp: mk_Coord_def coord_eq_iff)
  finally show ?thesis by simp
qed

lemma distinct_iter_range: "distinct (iter_range c n)"
  unfolding iter_range_def
  by (rule distinct_concat)
     (auto simp: distinct_map inj_on_def mk_Coord_def coord_eq_iff)

lemma equals_iff: "equals c d = (c = d)"
  by (simp add: equals_def coord_eq_iff)

lemma fold_sd_fields [simp]:
  "options (fold (\<lambda>d acc. if equals s d then acc else Game_mod_health acc d (- 2)) ds g) = options g"
  "next_player (fold (\<lambda>d acc. if equals s d then acc else Game_mod_health acc d (- 2)) ds g) = next_player g"
  "turns_played (fold (\<lambda>d acc. if equals s d then acc else Game_mod_health acc d (- 2)) ds g) = turns_played g"
  by (induction ds arbitrary: g) simp_all

lemma board_shape_fold_sd [simp]:
  "board_shape g \<Longrightarrow>
   board_shape (fold (\<lambda>d acc. if equals s d then acc else Game_mod_health acc d (- 2)) ds g)"
  by (induction ds arbitrary: g) simp_all

lemma units_ok_fold_sd:
  "board_shape g \<Longrightarrow> units_ok g \<Longrightarrow>
   units_ok (fold (\<lambda>d acc. if equals s d then acc else Game_mod_health acc d (- 2)) ds g)"
  by (induction ds arbitrary: g) (simp_all add: units_ok_Game_mod_health)

lemma get_fold_sd:
  "board_shape g \<Longrightarrow> distinct ds \<Longrightarrow>
   get (fold (\<lambda>d acc. if equals s d then acc else Game_mod_health acc d (- 2)) ds g) c =
     (if c \<in> set ds \<and> c \<noteq> s
      then (case get g c of None \<Rightarrow> None | Some u \<Rightarrow> swept (Unit_mod_health u (- 2)))
      else get g c)"
proof (induction ds arbitrary: g)
  case Nil then show ?case by simp
next
  case (Cons d ds)
  show ?case
  proof (cases "equals s d")
    case True
    then have "s = d" by (simp add: equals_iff)
    with True Cons show ?thesis by auto
  next
    case False
    then have ne: "s \<noteq> d" by (simp add: equals_iff)
    from Cons.prems have sh: "board_shape (Game_mod_health g d (- 2))" and di: "distinct ds"
      and nd: "d \<notin> set ds"
      by simp_all
    show ?thesis using False ne nd
      by (simp add: Cons.IH [OF sh di] get_Game_mod_health [OF Cons.prems(1)]) auto
  qed
qed

section \<open>Validated moves keep the game well formed\<close>

lemma are_coords_equal_iff: "are_coords_equal coords = (src coords = dst coords)"
  by (simp add: are_coords_equal_def equals_iff)

lemma valid_move_src:
  assumes "is_valid_move g coords = (True, at)"
  shows "\<exists>a. get g (src coords) = Some a \<and> player a = next_player g"
    and "is_valid_coord g (src coords)" and "is_valid_coord g (dst coords)" and "at \<noteq> None"
  using assms
  by (auto simp: is_valid_move_def Let_def split: if_splits option.splits)

lemma valid_SelfDestruct:
  assumes "is_valid_move g coords = (True, Some SelfDestruct)"
  shows "src coords = dst coords"
  using assms
  by (auto simp: is_valid_move_def Let_def are_coords_equal_iff split: if_splits option.splits)

lemma valid_Move:
  assumes "is_valid_move g coords = (True, Some Move)"
  shows "get g (dst coords) = None" and "src coords \<noteq> dst coords" and "is_adjacent coords"
  using assms
  by (auto simp: is_valid_move_def Let_def are_coords_equal_iff split: if_splits option.splits)

lemma valid_Attack:
  assumes "is_valid_move g coords = (True, Some Attack)"
  shows "\<exists>b. get g (dst coords) = Some b \<and> player b \<noteq> next_player g"
    and "src coords \<noteq> dst coords" and "is_adjacent coords"
  using assms
  by (auto simp: is_valid_move_def Let_def are_coords_equal_iff split: if_splits option.splits)

lemma valid_Repair:
  assumes "is_valid_move g coords = (True, Some Repair)"
  shows "\<exists>a b. get g (src coords) = Some a \<and> get g (dst coords) = Some b
            \<and> player b = next_player g \<and> 0 < repair_amount a b \<and> health b \<noteq> 9
            \<and> (utype a = Tech \<or> utype a = AI)"
    and "src coords \<noteq> dst coords" and "is_adjacent coords"
  using assms
  by (auto simp: is_valid_move_def Let_def are_coords_equal_iff is_repair_zero_def
        has_full_health_def split: if_splits option.splits)

lemma units_ok_set_coord:
  assumes "board_shape g" and "units_ok g" and "unit_ok cell"
  shows "units_ok (set_coord g c cell)"
proof -
  have "unit_ok (get (set_coord g c cell) c')" for c'
    using assms units_ok_iff [OF assms(1)] by (simp add: get_set_coord)
  then show ?thesis
    by (simp add: units_ok_iff [OF board_shape_set_coord [OF assms(1)]])
qed

lemma do_move_action_ok:
  assumes sh: "board_shape g" and ok: "units_ok g" and v: "is_valid_move g coords = (True, at)"
  shows "\<exists>g'. do_move_action g coords at = Inr g' \<and> board_shape g' \<and> units_ok g'
           \<and> options g' = options g \<and> next_player g' = next_player g
           \<and> turns_played g' = turns_played g"
proof -
  from valid_move_src [OF v] obtain a k where a: "get g (src coords) = Some a"
    and k: "at = Some k" by auto
  show ?thesis
  proof (cases k)
    case SelfDestruct
    let ?g1 = "fold (\<lambda>d acc. if equals (src coords) d then acc else Game_mod_health acc d (- 2))
                    (iter_range (src coords) 1) g"
    have "get ?g1 (src coords) = Some a"
      by (simp add: get_fold_sd [OF sh distinct_iter_range] a)
    then show ?thesis using sh ok k SelfDestruct
      by (simp add: do_move_action_def perform_self_distruct_def Let_def
            units_ok_Game_mod_health units_ok_fold_sd)
  next
    case Move
    have "unit_ok (get g (src coords))" using sh ok by (simp add: units_ok_iff)
    then show ?thesis using sh ok k Move
      by (simp add: do_move_action_def units_ok_set_coord unit_ok_def)
  next
    case Attack
    from valid_Attack(1) [OF v [unfolded k Attack]] obtain b
      where b: "get g (dst coords) = Some b" by auto
    show ?thesis using sh ok k Attack a b
      by (simp add: do_move_action_def perform_fight_def Let_def units_ok_Game_mod_health)
  next
    case Repair
    from valid_Repair(1) [OF v [unfolded k Repair]] obtain b
      where b: "get g (dst coords) = Some b" by auto
    show ?thesis using sh ok k Repair a b
      by (simp add: do_move_action_def perform_repair_def Let_def units_ok_Game_mod_health)
  qed
qed

lemma perform_move_ok:
  assumes sh: "board_shape g" and ok: "units_ok g"
  shows "\<exists>g' success at msg. perform_move g coords = Inr (g', success, at, msg)
           \<and> board_shape g' \<and> units_ok g'"
proof (cases "is_valid_move g coords")
  case (Pair is_valid at)
  show ?thesis
  proof (cases is_valid)
    case True
    from True Pair have "is_valid_move g coords = (True, at)" by simp
    from do_move_action_ok [OF sh ok this] obtain g'
      where "do_move_action g coords at = Inr g'" "board_shape g'" "units_ok g'" by auto
    then show ?thesis using Pair True by (auto simp: perform_move_def)
  next
    case False
    then show ?thesis using Pair sh ok by (auto simp: perform_move_def)
  qed
qed

lemma next_turn_ok:
  "board_shape (next_turn g) = board_shape g" "units_ok (next_turn g) = units_ok g"
  by (simp_all add: next_turn_def board_shape_def units_ok_def)

lemma play_ok:
  "board_shape g \<Longrightarrow> units_ok g \<Longrightarrow>
   \<exists>g'. play g mvs = Inr g' \<and> board_shape g' \<and> units_ok g'"
proof (induction mvs arbitrary: g)
  case Nil then show ?case by simp
next
  case (Cons mv mvs)
  from perform_move_ok [OF Cons.prems, of mv] obtain g1 success at msg
    where pm: "perform_move g mv = Inr (g1, success, at, msg)"
      and g1: "board_shape g1" "units_ok g1" by blast
  let ?g2 = "if success then next_turn g1 else g1"
  from g1 have "board_shape ?g2" "units_ok ?g2" by (simp_all add: next_turn_ok)
  from Cons.IH [OF this] show ?case by (simp add: pm)
qed

section \<open>Adjacency and engagement\<close>

lemma is_adjacent_iff:
  "is_adjacent cp =
     ((row (dst cp) = row (src cp) - 1 \<and> col (dst cp) = col (src cp))
      \<or> (row (dst cp) = row (src cp) \<and> col (dst cp) = col (src cp) - 1)
      \<or> (row (dst cp) = row (src cp) + 1 \<and> col (dst cp) = col (src cp))
      \<or> (row (dst cp) = row (src cp) \<and> col (dst cp) = col (src cp) + 1))"
  by (auto simp: is_adjacent_def iter_adjacent_def mk_Coord_def)

lemma is_adjacent_distinct: "is_adjacent cp \<Longrightarrow> src cp \<noteq> dst cp"
  by (auto simp: is_adjacent_iff coord_eq_iff)

lemma is_engaged_in_combat_iff:
  "is_engaged_in_combat g s =
     (\<exists>e. (get g (mk_Coord (row s - 1) (col s)) = Some e
           \<or> get g (mk_Coord (row s) (col s - 1)) = Some e
           \<or> get g (mk_Coord (row s + 1) (col s)) = Some e
           \<or> get g (mk_Coord (row s) (col s + 1)) = Some e)
          \<and> player e = Player_next (next_player g))"
  by (cases "next_player g")
     (auto simp: is_engaged_in_combat_def iter_adjacent_def Let_def split: option.splits)

section \<open>Independent cells and combat damage\<close>

lemma Game_eqI:
  fixes g h :: Game
  assumes "board g = board h" "next_player g = next_player h" "turns_played g = turns_played h"
    "options g = options h" "attacker_has_ai g = attacker_has_ai h"
    "defender_has_ai g = defender_has_ai h"
  shows "g = h"
  using assms by (cases g; cases h) simp

lemma board_eqI:
  assumes sg: "board_shape g" and sh: "board_shape h" and o: "options g = options h"
    and e: "\<And>c. get g c = get h c"
  shows "board g = board h"
proof (rule nth_equalityI)
  from sg sh o show len: "length (board g) = length (board h)" by (simp add: board_shape_def)
  fix i assume i: "i < length (board g)"
  from sg i have lg: "length (board g ! i) = nat (dim (options g))"
    by (simp add: board_shape_def list_all_length)
  from sh i len have lh: "length (board h ! i) = nat (dim (options g))"
    by (simp add: board_shape_def list_all_length o)
  show "board g ! i = board h ! i"
  proof (rule nth_equalityI)
    show "length (board g ! i) = length (board h ! i)" using lg lh by simp
    fix j assume j: "j < length (board g ! i)"
    let ?c = "mk_Coord (int i) (int j)"
    from i j lg sg have "int i < dim (options g)" "int j < dim (options g)"
      by (simp_all add: board_shape_def)
    then have v: "is_valid_coord g ?c" "is_valid_coord h ?c"
      by (simp_all add: is_valid_coord_def mk_Coord_def Let_def o [symmetric])
    from e [of ?c] v show "board g ! i ! j = board h ! i ! j"
      by (simp add: get_def mk_Coord_def)
  qed
qed

lemma Unit_mod_health_fields [simp]:
  "player (Unit_mod_health u d) = player u" "utype (Unit_mod_health u d) = utype u"
  by (simp_all add: Unit_mod_health_def Let_def)

lemma flags_remove_dead:
  "attacker_has_ai (remove_dead g c) =
     (attacker_has_ai g \<and>
      (case get g c of None \<Rightarrow> True
       | Some u \<Rightarrow> is_alive u \<or> utype u \<noteq> AI \<or> player u \<noteq> Attacker))"
  "defender_has_ai (remove_dead g c) =
     (defender_has_ai g \<and>
      (case get g c of None \<Rightarrow> True
       | Some u \<Rightarrow> is_alive u \<or> utype u \<noteq> AI \<or> player u = Attacker))"
  by (auto simp: remove_dead_def Let_def split: option.splits)

lemma flags_Game_mod_health:
  assumes "board_shape g"
  shows "attacker_has_ai (Game_mod_health g c d) =
     (attacker_has_ai g \<and>
      (case get g c of None \<Rightarrow> True
       | Some u \<Rightarrow> is_alive (Unit_mod_health u d) \<or> utype u \<noteq> AI \<or> player u \<noteq> Attacker))"
  and "defender_has_ai (Game_mod_health g c d) =
     (defender_has_ai g \<and>
      (case get g c of None \<Rightarrow> True
       | Some u \<Rightarrow> is_alive (Unit_mod_health u d) \<or> utype u \<noteq> AI \<or> player u = Attacker))"
  using assms
  by (auto simp: Game_mod_health_def flags_remove_dead get_set_coord dest: get_valid
           split: option.splits)

lemma Game_mod_health_commute:
  assumes sh: "board_shape g" and ne: "c \<noteq> c'"
  shows "Game_mod_health (Game_mod_health g c d) c' d'
           = Game_mod_health (Game_mod_health g c' d') c d"
proof (rule Game_eqI)
  note s1 = board_shape_Game_mod_health [OF sh, of c d]
  note s2 = board_shape_Game_mod_health [OF sh, of c' d']
  show "board (Game_mod_health (Game_mod_health g c d) c' d')
          = board (Game_mod_health (Game_mod_health g c' d') c d)"
  proof (rule board_eqI)
    show "board_shape (Game_mod_health (Game_mod_health g c d) c' d')" using s1 by simp
    show "board_shape (Game_mod_health (Game_mod_health g c' d') c d)" using s2 by simp
    show "options (Game_mod_health (Game_mod_health g c d) c' d')
            = options (Game_mod_health (Game_mod_health g c' d') c d)" by simp
    fix x
    show "get (Game_mod_health (Game_mod_health g c d) c' d') x
            = get (Game_mod_health (Game_mod_health g c' d') c d) x"
      using ne by (auto simp: get_Game_mod_health [OF s1] get_Game_mod_health [OF s2]
                     get_Game_mod_health [OF sh])
  qed
  show "attacker_has_ai (Game_mod_health (Game_mod_health g c d) c' d')
          = attacker_has_ai (Game_mod_health (Game_mod_health g c' d') c d)"
    using ne by (auto simp: flags_Game_mod_health [OF s1] flags_Game_mod_health [OF s2]
                   flags_Game_mod_health [OF sh] get_Game_mod_health [OF sh])
  show "defender_has_ai (Game_mod_health (Game_mod_health g c d) c' d')
          = defender_has_ai (Game_mod_health (Game_mod_health g c' d') c d)"
    using ne by (auto simp: flags_Game_mod_health [OF s1] flags_Game_mod_health [OF s2]
                   flags_Game_mod_health [OF sh] get_Game_mod_health [OF sh])
qed simp_all

lemma damage_amount_min:
  "damage_amount a b
     = min (damage_table ! UnitType_value (utype a) ! UnitType_value (utype b)) (health b)"
  by (simp add: damage_amount_def Let_def min_def)

lemma damage_table_range:
  "1 \<le> damage_table ! UnitType_value s ! UnitType_value t
   \<and> damage_table ! UnitType_value s ! UnitType_value t \<le> 9"
  by (cases s; cases t) (simp_all add: damage_table_def)

lemma mod_health_damage:
  assumes "0 < health b" and "health b \<le> 9"
  shows "Unit_mod_health b (- damage_amount a b) = b\<lparr>health := health b - damage_amount a b\<rparr>"
  using assms damage_table_range [of "utype a" "utype b"]
  by (simp add: Unit_mod_health_def Let_def damage_amount_min min_def)

lemma repair_amount_bound:
  assumes "0 < repair_amount a b" and "health b \<le> 9" and "0 < health b"
  shows "Unit_mod_health b (repair_amount a b) = b\<lparr>health := health b + repair_amount a b\<rparr>"
    and "health b + repair_amount a b \<le> 9"
  using assms
  by (auto simp: Unit_mod_health_def repair_amount_def Let_def split: if_splits)

section \<open>What the two searches can return\<close>

lemma ab_max_loop_raises:
  assumes "\<And>s a b v m. rec s a b = Inr (v, m) \<Longrightarrow> v = PMethod"
  shows "\<exists>e. ab_max_loop rec node cands PNegInf None alphaVal betaVal = Inl e"
proof (cases cands)
  case Nil then show ?thesis by (simp add: ab_return_def)
next
  case (Cons c rest)
  obtain mv action_type where c: "c = (mv, action_type)" by (cases c)
  show ?thesis
  proof (cases "do_move_action node mv action_type")
    case (Inl e) then show ?thesis by (simp add: Cons c)
  next
    case (Inr child_state)
    show ?thesis
    proof (cases "rec (next_turn child_state) alphaVal betaVal")
      case (Inl e) then show ?thesis using Inr by (simp add: Cons c)
    next
      case r: (Inr vm)
      obtain v m where vm: "vm = (v, m)" by (cases vm)
      from assms [OF r [unfolded vm]] have "v = PMethod" .
      then show ?thesis using Inr r vm by (simp add: Cons c)
    qed
  qed
qed

lemma ab_min_loop_raises:
  assumes "\<And>s a b v m. rec s a b = Inr (v, m) \<Longrightarrow> v = PMethod"
  shows "\<exists>e. ab_min_loop rec node cands PPosInf None alphaVal betaVal = Inl e"
proof (cases cands)
  case Nil then show ?thesis by (simp add: ab_return_def)
next
  case (Cons c rest)
  obtain mv action_type where c: "c = (mv, action_type)" by (cases c)
  show ?thesis
  proof (cases "do_move_action node mv action_type")
    case (Inl e) then show ?thesis by (simp add: Cons c)
  next
    case (Inr child_state)
    show ?thesis
    proof (cases "rec (next_turn child_state) alphaVal betaVal")
      case (Inl e) then show ?thesis using Inr by (simp add: Cons c)
    next
      case r: (Inr vm)
      obtain v m where vm: "vm = (v, m)" by (cases vm)
      from assms [OF r [unfolded vm]] have "v = PMethod" .
      then show ?thesis using Inr r vm by (simp add: Cons c py_gt_def)
    qed
  qed
qed

lemma alpha_beta_search_result:
  "alpha_beta_search fuel in_time tp max_player curDepth maxDepth node alphaVal betaVal = Inr (v, m)
   \<Longrightarrow> v = PMethod"
proof (induction fuel arbitrary: max_player curDepth node alphaVal betaVal v m)
  case 0 then show ?case by simp
next
  case (Suc fuel)
  let ?leaf = "Some (curDepth - tp) = max_depth (options node) \<or> \<not> in_time \<or> is_finished node"
  show ?case
  proof (cases ?leaf)
    case True
    with Suc.prems show ?thesis by auto
  next
    case False
    show ?thesis
    proof (cases max_player)
      case True
      have ih: "\<And>s a b v m. alpha_beta_search fuel in_time tp False (curDepth + 1) maxDepth s a b
                   = Inr (v, m) \<Longrightarrow> v = PMethod"
        by (rule Suc.IH)
      have "\<exists>e. ab_max_loop (alpha_beta_search fuel in_time tp False (curDepth + 1) maxDepth)
                        node (move_candidates node) PNegInf None alphaVal betaVal = Inl e"
        by (rule ab_max_loop_raises [OF ih])
      then obtain e where "ab_max_loop (alpha_beta_search fuel in_time tp False (curDepth + 1) maxDepth)
                        node (move_candidates node) PNegInf None alphaVal betaVal = Inl e" ..
      with Suc.prems False True show ?thesis by simp
    next
      case mp: False
      have ih: "\<And>s a b v m. alpha_beta_search fuel in_time tp True (curDepth + 1) maxDepth s a b
                   = Inr (v, m) \<Longrightarrow> v = PMethod"
        by (rule Suc.IH)
      have "\<exists>e. ab_min_loop (alpha_beta_search fuel in_time tp True (curDepth + 1) maxDepth)
                        node (move_candidates node) PPosInf None alphaVal betaVal = Inl e"
        by (rule ab_min_loop_raises [OF ih])
      then obtain e where "ab_min_loop (alpha_beta_search fuel in_time tp True (curDepth + 1) maxDepth)
                        node (move_candidates node) PPosInf None alphaVal betaVal = Inl e" ..
      with Suc.prems False mp show ?thesis by simp
    qed
  qed
qed

lemma deepening_result:
  assumes "\<And>d v m. run d = Inr (v, m) \<Longrightarrow> P v"
    and "deepening run ds init = Inr (v, m)" and "\<And>v m. init = Some (v, m) \<Longrightarrow> P v"
  shows "P v"
  using assms(2,3)
proof (induction ds arbitrary: init)
  case Nil then show ?case by (simp split: option.splits)
next
  case (Cons d ds)
  show ?case
  proof (cases "run d")
    case (Inl e) with Cons.prems show ?thesis by simp
  next
    case (Inr r)
    obtain v' m' where r: "r = (v', m')" by (cases r)
    from assms(1) [OF Inr [unfolded r]] have "P v'" .
    with Cons.IH [of "Some r"] Cons.prems(1) Inr r show ?thesis by simp
  qed
qed

lemma get_best_move_alpha_beta_result:
  assumes "alpha_beta (options g)" and "get_best_move_minimax fuel in_time g = Inr (v, m)"
  shows "v = PMethod"
proof -
  from assms(2) obtain limit where l: "max_depth (options g) = Some limit" and it: in_time
    by (auto simp: get_best_move_minimax_def Let_def split: if_splits option.splits)
  let ?run = "\<lambda>depth_limit. alpha_beta_search fuel in_time (turns_played g)
                 (next_player g = Attacker) (turns_played g) depth_limit g
                 (PInt MIN_HEURISTIC_SCORE) (PInt MAX_HEURISTIC_SCORE)"
  from assms l it have d: "deepening ?run [1 .. limit] None = Inr (v, m)"
    by (simp add: get_best_move_minimax_def Let_def)
  show ?thesis
    by (rule deepening_result [of ?run "\<lambda>v. v = PMethod", OF _ d])
       (auto dest: alpha_beta_search_result)
qed

lemma options_do_move_action:
  "do_move_action g coords action_type = Inr g' \<Longrightarrow> options g' = options g"
  by (auto simp: do_move_action_def perform_self_distruct_def perform_fight_def
        perform_repair_def Let_def split: option.splits ActionType.splits)

lemma options_next_turn [simp]: "options (next_turn g) = options g"
  by (simp add: next_turn_def)

lemma search_max_loop_no_int:
  assumes "\<And>s v m n. options s = options state \<Longrightarrow> rec s = Inr (v, m) \<Longrightarrow> v \<noteq> PInt n"
  shows "\<And>n. val \<noteq> PInt n \<Longrightarrow> search_max_loop rec state cands val best_move = Inr (v, m)
         \<Longrightarrow> v \<noteq> PInt n"
proof (induction cands arbitrary: val best_move)
  case Nil then show ?case by auto
next
  case (Cons c rest)
  obtain mv action_type where c: "c = (mv, action_type)" by (cases c)
  from Cons.prems(2) obtain child_state child_value m' better where
    d: "do_move_action state mv action_type = Inr child_state" and
    r: "rec (next_turn child_state) = Inr (child_value, m')" and
    b: "py_gt child_value val = Inr better" and
    l: "(if better then search_max_loop rec state rest child_value (Some mv)
         else search_max_loop rec state rest val best_move) = Inr (v, m)"
    by (auto simp: c split: sum.splits)
  from assms [OF _ r] options_do_move_action [OF d] have cv: "child_value \<noteq> PInt k" for k by simp
  show ?case
  proof (cases better)
    case True with l Cons.IH [of child_value n "Some mv"] cv show ?thesis by simp
  next
    case False with l Cons.IH [of val n best_move] Cons.prems(1) show ?thesis by simp
  qed
qed

lemma search_min_loop_no_int:
  assumes "\<And>s v m n. options s = options state \<Longrightarrow> rec s = Inr (v, m) \<Longrightarrow> v \<noteq> PInt n"
  shows "\<And>n. val \<noteq> PInt n \<Longrightarrow> search_min_loop rec state cands val best_move = Inr (v, m)
         \<Longrightarrow> v \<noteq> PInt n"
proof (induction cands arbitrary: val best_move)
  case Nil then show ?case by auto
next
  case (Cons c rest)
  obtain mv action_type where c: "c = (mv, action_type)" by (cases c)
  from Cons.prems(2) obtain child_state child_value m' better where
    d: "do_move_action state mv action_type = Inr child_state" and
    r: "rec (next_turn child_state) = Inr (child_value, m')" and
    b: "py_lt child_value val = Inr better" and
    l: "(if better then search_min_loop rec state rest child_value (Some mv)
         else search_min_loop rec state rest val best_move) = Inr (v, m)"
    by (auto simp: c split: sum.splits)
  from assms [OF _ r] options_do_move_action [OF d] have cv: "child_value \<noteq> PInt k" for k by simp
  show ?case
  proof (cases better)
    case True with l Cons.IH [of child_value n "Some mv"] cv show ?thesis by simp
  next
    case False with l Cons.IH [of val n best_move] Cons.prems(1) show ?thesis by simp
  qed
qed

lemma calculate_heuristic_None_iff:
  "(calculate_heuristic g = None) =
     (heuristic (options g) \<noteq> Some ''e0'' \<and> heuristic (options g) \<noteq> Some ''e1''
      \<and> heuristic (options g) \<noteq> Some ''e2'')"
  by (simp add: calculate_heuristic_def)

lemma search_no_int:
  assumes "calculate_heuristic state = None"
  shows "search fuel in_time tp state currentDepth maxDepth maximizingPlayer = Inr (v, m)
         \<Longrightarrow> v \<noteq> PInt n"
  using assms
proof (induction fuel arbitrary: state currentDepth maximizingPlayer v m n)
  case 0 then show ?case by simp
next
  case (Suc fuel)
  let ?leaf = "currentDepth - tp = maxDepth \<or> \<not> in_time \<or> is_finished state"
  have ih: "\<And>mx s v m n. options s = options state \<Longrightarrow>
               search fuel in_time tp s (currentDepth + 1) maxDepth mx = Inr (v, m) \<Longrightarrow> v \<noteq> PInt n"
  proof -
    fix mx s v m n
    assume o: "options s = options state"
      and r: "search fuel in_time tp s (currentDepth + 1) maxDepth mx = Inr (v, m)"
    from Suc.prems(2) o have "calculate_heuristic s = None"
      by (simp add: calculate_heuristic_None_iff)
    from Suc.IH [OF r this] show "v \<noteq> PInt n" .
  qed
  show ?case
  proof (cases ?leaf)
    case True
    with Suc.prems show ?thesis by (auto simp: heuristic_value_def)
  next
    case False
    show ?thesis
    proof (cases maximizingPlayer)
      case True
      with Suc.prems(1) False have L:
        "search_max_loop (\<lambda>child_state. search fuel in_time tp child_state (currentDepth + 1)
             maxDepth False) state (move_candidates state) PNegInf None = Inr (v, m)"
        by simp
      show ?thesis
        by (rule search_max_loop_no_int [OF _ _ L]) (erule (1) ih, simp)
    next
      case mp: False
      with Suc.prems(1) False have L:
        "search_min_loop (\<lambda>child_state. search fuel in_time tp child_state (currentDepth + 1)
             maxDepth True) state (move_candidates state) PPosInf None = Inr (v, m)"
        by simp
      show ?thesis
        by (rule search_min_loop_no_int [OF _ _ L]) (erule (1) ih, simp)
    qed
  qed
qed

lemma get_best_move_plain_result:
  assumes "\<not> alpha_beta (options g)" and "calculate_heuristic g = None"
    and "get_best_move_minimax fuel in_time g = Inr (v, m)"
  shows "v \<noteq> PInt n"
proof -
  from assms(3) obtain limit where l: "max_depth (options g) = Some limit" and it: in_time
    by (auto simp: get_best_move_minimax_def Let_def split: if_splits option.splits)
  let ?run = "\<lambda>depth_limit. search fuel in_time (turns_played g) g (turns_played g)
                 depth_limit (next_player g = Attacker)"
  from assms l it have d: "deepening ?run [1 .. limit] None = Inr (v, m)"
    by (simp add: get_best_move_minimax_def Let_def)
  show ?thesis
    by (rule deepening_result [of ?run "\<lambda>v. v \<noteq> PInt n", OF _ d])
       (auto dest: search_no_int [OF assms(2)])
qed

section \<open>Termination: \<open>has_winner\<close>\<close>

text \<open>
  Claim C9. Once the number of turns played has reached or passed the configured
  \<open>max_turns\<close>, \<open>has_winner\<close> reports the Defender, whatever the two Command-unit flags
  and the board are: the test comes first in the function.
\<close>

theorem has_winner_turn_limit:
  assumes "max_turns (options g) = Some m" and "m \<le> turns_played g"
  shows "has_winner g = Some Defender"
  using assms by (simp add: has_winner_def)

theorem has_winner_turn_limit_witness:
  "max_turns (options (initial_game\<lparr>turns_played := 100, defender_has_ai := False\<rparr>)) = Some 100
   \<and> 100 \<le> turns_played (initial_game\<lparr>turns_played := 100, defender_has_ai := False\<rparr>)
   \<and> has_winner (initial_game\<lparr>turns_played := 100, defender_has_ai := False\<rparr>) = Some Defender"
proof -
  let ?g = "initial_game\<lparr>turns_played := 100, defender_has_ai := False\<rparr>"
  have h1: "max_turns (options ?g) = Some 100"
    by code_simp
  have h2: "100 \<le> turns_played ?g"
    by simp
  from has_winner_turn_limit [OF h1 h2] h1 h2 show ?thesis
    by blast
qed

text \<open>
  Claim C1, as the code has it. Below the turn limit the winner is read off the two flags
  \<open>_attacker_has_ai\<close> and \<open>_defender_has_ai\<close>: the Attacker wins when the Defender's
  Command unit is destroyed and its own survives, the Defender wins when the Attacker's
  Command unit is destroyed (whether or not its own survives), and there is no winner
  while both survive. The side that loses its Command unit loses the game.
\<close>

theorem has_winner_below_turn_limit:
  assumes "case max_turns (options g) of None \<Rightarrow> True | Some m \<Rightarrow> turns_played g < m"
  shows "(attacker_has_ai g \<and> \<not> defender_has_ai g \<longrightarrow> has_winner g = Some Attacker)
       \<and> (\<not> attacker_has_ai g \<and> defender_has_ai g \<longrightarrow> has_winner g = Some Defender)
       \<and> (\<not> attacker_has_ai g \<and> \<not> defender_has_ai g \<longrightarrow> has_winner g = Some Defender)
       \<and> (attacker_has_ai g \<and> defender_has_ai g \<longrightarrow> has_winner g = None)"
  using assms by (auto simp: has_winner_def split: option.splits)

theorem has_winner_below_turn_limit_witness:
  "has_winner (initial_game\<lparr>defender_has_ai := False\<rparr>) = Some Attacker
   \<and> has_winner after_ai_self_destruct = Some Defender
   \<and> has_winner (after_ai_self_destruct\<lparr>defender_has_ai := False\<rparr>) = Some Defender
   \<and> has_winner initial_game = None"
proof -
  have a: "case max_turns (options (initial_game\<lparr>defender_has_ai := False\<rparr>)) of
             None \<Rightarrow> True
           | Some m \<Rightarrow> turns_played (initial_game\<lparr>defender_has_ai := False\<rparr>) < m"
    by code_simp
  have b: "case max_turns (options after_ai_self_destruct) of
             None \<Rightarrow> True | Some m \<Rightarrow> turns_played after_ai_self_destruct < m"
    by code_simp
  have c: "case max_turns (options (after_ai_self_destruct\<lparr>defender_has_ai := False\<rparr>)) of
             None \<Rightarrow> True
           | Some m \<Rightarrow> turns_played (after_ai_self_destruct\<lparr>defender_has_ai := False\<rparr>) < m"
    by code_simp
  have d: "case max_turns (options initial_game) of
             None \<Rightarrow> True | Some m \<Rightarrow> turns_played initial_game < m"
    by code_simp
  have fa: "attacker_has_ai (initial_game\<lparr>defender_has_ai := False\<rparr>)
            \<and> \<not> defender_has_ai (initial_game\<lparr>defender_has_ai := False\<rparr>)"
    by code_simp
  have fb: "\<not> attacker_has_ai after_ai_self_destruct \<and> defender_has_ai after_ai_self_destruct"
    by code_simp
  have fc: "\<not> attacker_has_ai (after_ai_self_destruct\<lparr>defender_has_ai := False\<rparr>)
            \<and> \<not> defender_has_ai (after_ai_self_destruct\<lparr>defender_has_ai := False\<rparr>)"
    by code_simp
  have fd: "attacker_has_ai initial_game \<and> defender_has_ai initial_game"
    by code_simp
  note r1 = has_winner_below_turn_limit [OF a, THEN conjunct1, THEN mp, OF fa]
  note r2 = has_winner_below_turn_limit [OF b, THEN conjunct2, THEN conjunct1, THEN mp, OF fb]
  note r3 = has_winner_below_turn_limit
              [OF c, THEN conjunct2, THEN conjunct2, THEN conjunct1, THEN mp, OF fc]
  note r4 = has_winner_below_turn_limit
              [OF d, THEN conjunct2, THEN conjunct2, THEN conjunct2, THEN mp, OF fd]
  show ?thesis
    by (intro conjI) (rule r1, rule r2, rule r3, rule r4)
qed

text \<open>
  Claim C1 as the specification words it fails. The state is the default game after the
  Attacker has destroyed its own Command unit on the first turn: the Attacker's Command
  unit is gone, the Defender's survives, the turn limit is far away, and the winner is the
  Defender, not the Attacker.
\<close>

theorem has_winner_attacker_ai_destroyed_counterexample:
  "perform_move initial_game (mk_CoordPair 4 4 4 4)
     = Inr (after_ai_self_destruct, True, Some SelfDestruct, [])
   \<and> max_turns (options after_ai_self_destruct) = Some 100
   \<and> turns_played after_ai_self_destruct < 100
   \<and> \<not> attacker_has_ai after_ai_self_destruct
   \<and> defender_has_ai after_ai_self_destruct
   \<and> has_winner after_ai_self_destruct = Some Defender
   \<and> has_winner after_ai_self_destruct \<noteq> Some Attacker"
  by code_simp

section \<open>Spatial primitives: \<open>get_direction\<close>\<close>

text \<open>
  Claim C8, as the code has it. \<open>get_direction\<close> compares the two rows and the two columns
  only by order: a direction is defined exactly when source and destination lie on one
  row or on one column and are different cells, at any distance. It is undefined for equal
  coordinates and for pairs that differ on both axes.
\<close>

theorem get_direction_defined_iff:
  "(get_direction cp \<noteq> None)
     = ((col (src cp) = col (dst cp)) \<noteq> (row (src cp) = row (dst cp)))"
  by (auto simp: get_direction_def Let_def)

text \<open>
  Claim C8 as worded fails for same-axis offsets of more than one step: two rows down in
  the same column the direction is \<open>Down\<close>.
\<close>

theorem get_direction_two_steps_counterexample:
  "get_direction (mk_CoordPair 0 0 2 0) = Some Down
   \<and> row (dst (mk_CoordPair 0 0 2 0)) - row (src (mk_CoordPair 0 0 2 0)) = 2
   \<and> col (dst (mk_CoordPair 0 0 2 0)) = col (src (mk_CoordPair 0 0 2 0))"
  by (simp add: get_direction_def mk_CoordPair_def mk_Coord_def)

section \<open>Health stays in range and dead units leave the board\<close>

text \<open>
  Claim C4. \<open>Unit.mod_health\<close> clamps every result to the range 0 to 9.
  \<open>Game.mod_health\<close> sweeps the cell in the same call: the cell is empty afterwards
  exactly when the new health is 0 (\<open>swept\<close>), so every unit standing on the board
  keeps a health from 1 to 9 (\<open>units_ok\<close>). The invariant holds after every sequence
  of requested moves, each validated and applied by \<open>perform_move\<close> (moves, attacks,
  repairs and self-destructions), and no such sequence raises.
\<close>

theorem health_invariant:
  assumes "board_shape g" and "units_ok g"
  shows "0 \<le> health (Unit_mod_health u d) \<and> health (Unit_mod_health u d) \<le> 9
       \<and> get (Game_mod_health g c d) c
           = (case get g c of None \<Rightarrow> None | Some t \<Rightarrow> swept (Unit_mod_health t d))
       \<and> units_ok (Game_mod_health g c d)
       \<and> (\<exists>g'. play g mvs = Inr g' \<and> board_shape g' \<and> units_ok g')"
proof -
  have "0 \<le> health (Unit_mod_health u d) \<and> health (Unit_mod_health u d) \<le> 9"
    by (simp add: Unit_mod_health_def Let_def)
  moreover have "get (Game_mod_health g c d) c
           = (case get g c of None \<Rightarrow> None | Some t \<Rightarrow> swept (Unit_mod_health t d))"
    by (simp add: get_Game_mod_health [OF assms(1)])
  moreover note units_ok_Game_mod_health [OF assms] play_ok [OF assms]
  ultimately show ?thesis by simp
qed

theorem health_invariant_witness:
  "board_shape initial_game \<and> units_ok initial_game
   \<and> (0 \<le> health (Unit_mod_health (mk_Unit Attacker Virus) (- 20))
       \<and> health (Unit_mod_health (mk_Unit Attacker Virus) (- 20)) \<le> 9
       \<and> get (Game_mod_health initial_game (mk_Coord 4 4) (- 20)) (mk_Coord 4 4)
           = (case get initial_game (mk_Coord 4 4) of
                None \<Rightarrow> None
              | Some t \<Rightarrow> swept (Unit_mod_health t (- 20)))
       \<and> units_ok (Game_mod_health initial_game (mk_Coord 4 4) (- 20))
       \<and> (\<exists>g'. play initial_game [mk_CoordPair 4 4 4 4, mk_CoordPair 1 1 2 1] = Inr g'
                \<and> board_shape g' \<and> units_ok g'))"
proof -
  have h1: "board_shape initial_game" by code_simp
  have h2: "units_ok initial_game" by code_simp
  show ?thesis
    by (rule conjI [OF h1 conjI [OF h2 health_invariant [OF h1 h2]]])
qed

section \<open>Self-destruction\<close>

text \<open>
  Claim C6. A unit \<open>u\<close> standing at \<open>c\<close> self-destructs. Every other cell of the
  3 by 3 neighbourhood of \<open>c\<close> that holds a unit \<open>v\<close> then holds \<open>v\<close> with its health
  lowered by \<open>min 2 (health v)\<close>, whatever the two unit types are, and is swept when that
  health is 0; the acting unit's health is brought to 0 and its cell \<open>c\<close> is empty; cells
  outside the neighbourhood are untouched. Cells of the neighbourhood that fall outside
  the board are skipped, so the board dimension does not matter.
\<close>

theorem perform_self_distruct_effect:
  assumes "board_shape g" and "units_ok g" and "get g c = Some u"
  shows "\<exists>g'. perform_self_distruct g c = Inr g'
           \<and> get g' c = None
           \<and> health (Unit_mod_health u (- health u)) = 0
           \<and> (\<forall>d. d \<in> set (iter_range c 1) \<and> d \<noteq> c \<longrightarrow>
                  get g' d = (case get g d of
                                None \<Rightarrow> None
                              | Some v \<Rightarrow> swept (v\<lparr>health := health v - min 2 (health v)\<rparr>)))
           \<and> (\<forall>d. d \<notin> set (iter_range c 1) \<longrightarrow> get g' d = get g d)"
proof -
  let ?g1 = "fold (\<lambda>d acc. if equals c d then acc else Game_mod_health acc d (- 2))
                  (iter_range c 1) g"
  have sh1: "board_shape ?g1" using assms(1) by simp
  have g1: "get ?g1 d =
              (if d \<in> set (iter_range c 1) \<and> d \<noteq> c
               then (case get g d of None \<Rightarrow> None | Some v \<Rightarrow> swept (Unit_mod_health v (- 2)))
               else get g d)" for d
    by (rule get_fold_sd [OF assms(1) distinct_iter_range])
  have self: "get ?g1 c = Some u" using assms(3) by (simp add: g1)
  let ?g' = "Game_mod_health ?g1 c (- health u)"
  have res: "perform_self_distruct g c = Inr ?g'"
    by (simp add: perform_self_distruct_def Let_def self)
  have dead: "health (Unit_mod_health u (- health u)) = 0"
    by (simp add: Unit_mod_health_def)
  have at_c: "get ?g' c = None"
    by (simp add: get_Game_mod_health [OF sh1] self swept_def is_alive_def dead)
  have ok: "unit_ok (get g d)" for d
    using assms(1,2) by (simp add: units_ok_iff)
  have two: "Unit_mod_health v (- 2) = v\<lparr>health := health v - min 2 (health v)\<rparr>"
    if "get g d = Some v" for d v
    using ok [of d] that by (auto simp: unit_ok_def Unit_mod_health_def Let_def min_def)
  have nb: "get ?g' d = (case get g d of
                            None \<Rightarrow> None
                          | Some v \<Rightarrow> swept (v\<lparr>health := health v - min 2 (health v)\<rparr>))"
    if "d \<in> set (iter_range c 1)" "d \<noteq> c" for d
    using that two [of d]
    by (simp add: get_Game_mod_health [OF sh1] g1 split: option.splits)
  have far: "get ?g' d = get g d" if "d \<notin> set (iter_range c 1)" for d
  proof -
    have "c \<in> set (iter_range c 1)" by (simp add: set_iter_range)
    with that have "d \<noteq> c" by auto
    with that show ?thesis by (simp add: get_Game_mod_health [OF sh1] g1)
  qed
  from res at_c dead nb far show ?thesis by auto
qed

theorem perform_self_distruct_effect_witness:
  "board_shape initial_game \<and> units_ok initial_game
   \<and> get initial_game (mk_Coord 4 4) = Some \<lparr>player = Attacker, utype = AI, health = 9\<rparr>
   \<and> (\<exists>g'. perform_self_distruct initial_game (mk_Coord 4 4) = Inr g'
            \<and> get g' (mk_Coord 4 4) = None
            \<and> get g' (mk_Coord 3 3) = Some \<lparr>player = Attacker, utype = Firewall, health = 7\<rparr>
            \<and> get g' (mk_Coord 0 0) = get initial_game (mk_Coord 0 0))"
proof -
  have h1: "board_shape initial_game" by code_simp
  have h2: "units_ok initial_game" by code_simp
  have h3: "get initial_game (mk_Coord 4 4) = Some \<lparr>player = Attacker, utype = AI, health = 9\<rparr>"
    by code_simp
  have n: "get initial_game (mk_Coord 3 3)
             = Some \<lparr>player = Attacker, utype = Firewall, health = 9\<rparr>"
    by code_simp
  have m1: "mk_Coord 3 3 \<in> set (iter_range (mk_Coord 4 4) 1) \<and> mk_Coord 3 3 \<noteq> mk_Coord 4 4"
    by (simp add: set_iter_range mk_Coord_def)
  have m2: "mk_Coord 0 0 \<notin> set (iter_range (mk_Coord 4 4) 1)"
    by (simp add: set_iter_range mk_Coord_def)
  from perform_self_distruct_effect [OF h1 h2 h3] obtain g' where
    P: "perform_self_distruct initial_game (mk_Coord 4 4) = Inr g'
           \<and> get g' (mk_Coord 4 4) = None
           \<and> health (Unit_mod_health \<lparr>player = Attacker, utype = AI, health = 9\<rparr>
                     (- health \<lparr>player = Attacker, utype = AI, health = 9\<rparr>)) = 0
           \<and> (\<forall>d. d \<in> set (iter_range (mk_Coord 4 4) 1) \<and> d \<noteq> mk_Coord 4 4 \<longrightarrow>
                  get g' d = (case get initial_game d of
                                None \<Rightarrow> None
                              | Some v \<Rightarrow> swept (v\<lparr>health := health v - min 2 (health v)\<rparr>)))
           \<and> (\<forall>d. d \<notin> set (iter_range (mk_Coord 4 4) 1) \<longrightarrow> get g' d = get initial_game d)" ..
  note p1 = P [THEN conjunct1]
  note p2 = P [THEN conjunct2, THEN conjunct1]
  note p4 = P [THEN conjunct2, THEN conjunct2, THEN conjunct2, THEN conjunct1, THEN spec,
               THEN mp, OF m1]
  note p5 = P [THEN conjunct2, THEN conjunct2, THEN conjunct2, THEN conjunct2, THEN spec,
               THEN mp, OF m2]
  have q4: "get g' (mk_Coord 3 3) = Some \<lparr>player = Attacker, utype = Firewall, health = 7\<rparr>"
    using p4 by (simp add: n swept_def is_alive_def)
  have "perform_self_distruct initial_game (mk_Coord 4 4) = Inr g'
            \<and> get g' (mk_Coord 4 4) = None
            \<and> get g' (mk_Coord 3 3) = Some \<lparr>player = Attacker, utype = Firewall, health = 7\<rparr>
            \<and> get g' (mk_Coord 0 0) = get initial_game (mk_Coord 0 0)"
    by (rule conjI [OF p1 conjI [OF p2 conjI [OF q4 p5]]])
  then have e: "\<exists>g'. perform_self_distruct initial_game (mk_Coord 4 4) = Inr g'
            \<and> get g' (mk_Coord 4 4) = None
            \<and> get g' (mk_Coord 3 3) = Some \<lparr>player = Attacker, utype = Firewall, health = 7\<rparr>
            \<and> get g' (mk_Coord 0 0) = get initial_game (mk_Coord 0 0)" ..
  show ?thesis
    by (rule conjI [OF h1 conjI [OF h2 conjI [OF h3 e]]])
qed

section \<open>Legality of a move into an empty adjacent cell\<close>

text \<open>
  Claim C5. The unit of the player to move stands at \<open>src\<close>, and \<open>dst\<close> is an empty
  cell next to it. \<open>is_valid_move\<close> then answers \<open>(True, Move)\<close> exactly when (a) the
  unit is not engaged, or is a Tech or a Virus, and (b) the direction suits the unit:
  AI, Program and Firewall go Up or Left for the Attacker and Down or Right for the
  Defender, the Attacker's Virus and the Defender's Tech go anywhere, and the Attacker's
  Tech and the Defender's Virus go nowhere. In every other case the answer is
  \<open>(False, None)\<close>. Engaged means that one of the four neighbouring cells holds a unit of
  the other player.
\<close>

theorem move_into_empty_cell_legality:
  assumes "is_valid_coord g (src coords)" and "is_valid_coord g (dst coords)"
    and "get g (src coords) = Some unit" and "player unit = next_player g"
    and "is_adjacent coords" and "get g (dst coords) = None"
  shows "is_valid_move g coords =
           (if (is_engaged_in_combat g (src coords) \<and> utype unit \<noteq> Tech \<and> utype unit \<noteq> Virus)
             then (False, None)
           else if (utype unit = AI \<or> utype unit = Program \<or> utype unit = Firewall)
                   \<and> player unit = Attacker
                   \<and> (get_direction coords = Some Up \<or> get_direction coords = Some Left)
             then (True, Some Move)
           else if (utype unit = AI \<or> utype unit = Program \<or> utype unit = Firewall)
                   \<and> player unit = Defender
                   \<and> (get_direction coords = Some Down \<or> get_direction coords = Some Right)
             then (True, Some Move)
           else if utype unit = Virus \<and> player unit = Attacker then (True, Some Move)
           else if utype unit = Tech \<and> player unit = Defender then (True, Some Move)
           else (False, None))
       \<and> is_engaged_in_combat g (src coords) =
           (\<exists>e. (get g (mk_Coord (row (src coords) - 1) (col (src coords))) = Some e
                 \<or> get g (mk_Coord (row (src coords)) (col (src coords) - 1)) = Some e
                 \<or> get g (mk_Coord (row (src coords) + 1) (col (src coords))) = Some e
                 \<or> get g (mk_Coord (row (src coords)) (col (src coords) + 1)) = Some e)
                \<and> player e = Player_next (player unit))"
proof -
  from assms(5) have ne: "\<not> are_coords_equal coords"
    by (simp add: are_coords_equal_iff is_adjacent_distinct)
  have main: "is_valid_move g coords =
           (if (is_engaged_in_combat g (src coords) \<and> utype unit \<noteq> Tech \<and> utype unit \<noteq> Virus)
             then (False, None)
            else if \<not> truthy (is_valid_movement unit (player unit) (get_direction coords))
             then (False, None) else (True, Some Move))"
    using assms ne
    by (simp add: is_valid_move_def Let_def is_movement_direction_valid_def)
  have tr: "truthy (is_valid_movement unit (player unit) (get_direction coords)) =
     ((utype unit = AI \<or> utype unit = Program \<or> utype unit = Firewall)
                   \<and> player unit = Attacker
                   \<and> (get_direction coords = Some Up \<or> get_direction coords = Some Left)
      \<or> (utype unit = AI \<or> utype unit = Program \<or> utype unit = Firewall)
                   \<and> player unit = Defender
                   \<and> (get_direction coords = Some Down \<or> get_direction coords = Some Right)
      \<or> utype unit = Virus \<and> player unit = Attacker
      \<or> utype unit = Tech \<and> player unit = Defender)"
    by (cases "player unit"; cases "utype unit") (simp_all add: is_valid_movement_def)
  have eng: "is_engaged_in_combat g (src coords) =
           (\<exists>e. (get g (mk_Coord (row (src coords) - 1) (col (src coords))) = Some e
                 \<or> get g (mk_Coord (row (src coords)) (col (src coords) - 1)) = Some e
                 \<or> get g (mk_Coord (row (src coords) + 1) (col (src coords))) = Some e
                 \<or> get g (mk_Coord (row (src coords)) (col (src coords) + 1)) = Some e)
                \<and> player e = Player_next (player unit))"
    unfolding assms(4) by (rule is_engaged_in_combat_iff)
  have cls: "is_valid_move g coords =
           (if (is_engaged_in_combat g (src coords) \<and> utype unit \<noteq> Tech \<and> utype unit \<noteq> Virus)
             then (False, None)
           else if (utype unit = AI \<or> utype unit = Program \<or> utype unit = Firewall)
                   \<and> player unit = Attacker
                   \<and> (get_direction coords = Some Up \<or> get_direction coords = Some Left)
             then (True, Some Move)
           else if (utype unit = AI \<or> utype unit = Program \<or> utype unit = Firewall)
                   \<and> player unit = Defender
                   \<and> (get_direction coords = Some Down \<or> get_direction coords = Some Right)
             then (True, Some Move)
           else if utype unit = Virus \<and> player unit = Attacker then (True, Some Move)
           else if utype unit = Tech \<and> player unit = Defender then (True, Some Move)
           else (False, None))"
    unfolding main tr by (cases "is_engaged_in_combat g (src coords)") auto
  show ?thesis by (rule conjI [OF cls eng])
qed

theorem move_into_empty_cell_legality_witness:
  "is_valid_coord initial_game (src (mk_CoordPair 2 4 1 4))
   \<and> is_valid_coord initial_game (dst (mk_CoordPair 2 4 1 4))
   \<and> get initial_game (src (mk_CoordPair 2 4 1 4))
        = Some \<lparr>player = Attacker, utype = Program, health = 9\<rparr>
   \<and> player \<lparr>player = Attacker, utype = Program, health = 9\<rparr> = next_player initial_game
   \<and> is_adjacent (mk_CoordPair 2 4 1 4)
   \<and> get initial_game (dst (mk_CoordPair 2 4 1 4)) = None
   \<and> get_direction (mk_CoordPair 2 4 1 4) = Some Up
   \<and> is_valid_move initial_game (mk_CoordPair 2 4 1 4) = (True, Some Move)"
proof -
  have h1: "is_valid_coord initial_game (src (mk_CoordPair 2 4 1 4))" by code_simp
  have h2: "is_valid_coord initial_game (dst (mk_CoordPair 2 4 1 4))" by code_simp
  have h3: "get initial_game (src (mk_CoordPair 2 4 1 4))
              = Some \<lparr>player = Attacker, utype = Program, health = 9\<rparr>" by code_simp
  have h4: "player \<lparr>player = Attacker, utype = Program, health = 9\<rparr> = next_player initial_game"
    by code_simp
  have h5: "is_adjacent (mk_CoordPair 2 4 1 4)" by code_simp
  have h6: "get initial_game (dst (mk_CoordPair 2 4 1 4)) = None" by code_simp
  have d: "get_direction (mk_CoordPair 2 4 1 4) = Some Up" by code_simp
  have e: "\<not> is_engaged_in_combat initial_game (src (mk_CoordPair 2 4 1 4))" by code_simp
  note c = move_into_empty_cell_legality [OF h1 h2 h3 h4 h5 h6, THEN conjunct1]
  have r: "is_valid_move initial_game (mk_CoordPair 2 4 1 4) = (True, Some Move)"
    unfolding c using d e by simp
  show ?thesis
    by (rule conjI [OF h1 conjI [OF h2 conjI [OF h3 conjI [OF h4 conjI [OF h5
          conjI [OF h6 conjI [OF d r]]]]]]])
qed

section \<open>Combat\<close>

text \<open>
  Claim C3. In a legal Attack of the unit \<open>a\<close> at \<open>src\<close> on the unit \<open>b\<close> at \<open>dst\<close>,
  both damages are taken from the table and capped by the victim's health before either
  unit is touched. Afterwards \<open>dst\<close> holds \<open>b\<close> less \<open>a\<close>'s damage and \<open>src\<close> holds
  \<open>a\<close> less \<open>b\<close>'s damage (each swept when it reaches 0, the other damage being applied
  all the same), and applying the two modifications in the other order gives the same
  game. Two opposing Programs at health 9 both end at health 6.
\<close>

theorem perform_fight_simultaneous:
  assumes "board_shape g" and "units_ok g" and "is_valid_move g coords = (True, Some Attack)"
  shows "\<exists>a b g'. get g (src coords) = Some a \<and> get g (dst coords) = Some b
           \<and> do_move_action g coords (Some Attack) = Inr g'
           \<and> damage_amount a b
               = min (damage_table ! UnitType_value (utype a) ! UnitType_value (utype b)) (health b)
           \<and> damage_amount b a
               = min (damage_table ! UnitType_value (utype b) ! UnitType_value (utype a)) (health a)
           \<and> get g' (dst coords) = swept (b\<lparr>health := health b - damage_amount a b\<rparr>)
           \<and> get g' (src coords) = swept (a\<lparr>health := health a - damage_amount b a\<rparr>)
           \<and> g' = Game_mod_health (Game_mod_health g (dst coords) (- damage_amount a b))
                                   (src coords) (- damage_amount b a)"
proof -
  from valid_move_src(1) [OF assms(3)] obtain a where a: "get g (src coords) = Some a" by auto
  from valid_Attack(1) [OF assms(3)] obtain b where b: "get g (dst coords) = Some b" by auto
  note ne = valid_Attack(2) [OF assms(3)]
  let ?g1 = "Game_mod_health g (src coords) (- damage_amount b a)"
  let ?g' = "Game_mod_health ?g1 (dst coords) (- damage_amount a b)"
  have s1: "board_shape ?g1" using assms(1) by simp
  from assms(1,2) a b have ha: "0 < health a" "health a \<le> 9" and hb: "0 < health b" "health b \<le> 9"
    using units_ok_iff [OF assms(1)] by (auto simp: unit_ok_def split: option.splits)
  have res: "do_move_action g coords (Some Attack) = Inr ?g'"
    by (simp add: do_move_action_def perform_fight_def a b Let_def)
  have at_dst: "get ?g' (dst coords) = swept (b\<lparr>health := health b - damage_amount a b\<rparr>)"
    using ne by (simp add: get_Game_mod_health [OF s1] get_Game_mod_health [OF assms(1)] b
                   mod_health_damage [OF hb])
  have at_src: "get ?g' (src coords) = swept (a\<lparr>health := health a - damage_amount b a\<rparr>)"
    using ne by (simp add: get_Game_mod_health [OF s1] get_Game_mod_health [OF assms(1)] a
                   mod_health_damage [OF ha])
  have order: "?g' = Game_mod_health (Game_mod_health g (dst coords) (- damage_amount a b))
                                     (src coords) (- damage_amount b a)"
    by (rule Game_mod_health_commute [OF assms(1) ne])
  from a b res at_dst at_src order damage_amount_min [of a b] damage_amount_min [of b a]
  show ?thesis by (intro exI conjI)
qed

theorem perform_fight_simultaneous_witness:
  "play initial_game [mk_CoordPair 4 2 3 2, mk_CoordPair 1 1 1 2, mk_CoordPair 3 2 2 2]
     = Inr programs_face_to_face
   \<and> board_shape programs_face_to_face \<and> units_ok programs_face_to_face
   \<and> is_valid_move programs_face_to_face (mk_CoordPair 1 2 2 2) = (True, Some Attack)
   \<and> get programs_face_to_face (src (mk_CoordPair 1 2 2 2)) = unit_of Defender Program 9
   \<and> get programs_face_to_face (dst (mk_CoordPair 1 2 2 2)) = unit_of Attacker Program 9
   \<and> (\<exists>g'. do_move_action programs_face_to_face (mk_CoordPair 1 2 2 2) (Some Attack) = Inr g'
          \<and> get g' (src (mk_CoordPair 1 2 2 2)) = unit_of Defender Program 6
          \<and> get g' (dst (mk_CoordPair 1 2 2 2)) = unit_of Attacker Program 6)"
proof -
  have h0: "play initial_game [mk_CoordPair 4 2 3 2, mk_CoordPair 1 1 1 2, mk_CoordPair 3 2 2 2]
              = Inr programs_face_to_face" by code_simp
  have h1: "board_shape programs_face_to_face" by code_simp
  have h2: "units_ok programs_face_to_face" by code_simp
  have h3: "is_valid_move programs_face_to_face (mk_CoordPair 1 2 2 2) = (True, Some Attack)"
    by code_simp
  have s: "get programs_face_to_face (src (mk_CoordPair 1 2 2 2)) = unit_of Defender Program 9"
    by code_simp
  have d: "get programs_face_to_face (dst (mk_CoordPair 1 2 2 2)) = unit_of Attacker Program 9"
    by code_simp
  from perform_fight_simultaneous [OF h1 h2 h3] obtain a b g' where
    a: "get programs_face_to_face (src (mk_CoordPair 1 2 2 2)) = Some a" and
    b: "get programs_face_to_face (dst (mk_CoordPair 1 2 2 2)) = Some b" and
    r: "do_move_action programs_face_to_face (mk_CoordPair 1 2 2 2) (Some Attack) = Inr g'" and
    dab: "damage_amount a b
            = min (damage_table ! UnitType_value (utype a) ! UnitType_value (utype b)) (health b)" and
    dba: "damage_amount b a
            = min (damage_table ! UnitType_value (utype b) ! UnitType_value (utype a)) (health a)" and
    gd: "get g' (dst (mk_CoordPair 1 2 2 2)) = swept (b\<lparr>health := health b - damage_amount a b\<rparr>)" and
    gs: "get g' (src (mk_CoordPair 1 2 2 2)) = swept (a\<lparr>health := health a - damage_amount b a\<rparr>)"
    by (elim exE conjE)
  from a s have a': "a = \<lparr>player = Defender, utype = Program, health = 9\<rparr>"
    by (simp add: unit_of_def)
  from b d have b': "b = \<lparr>player = Attacker, utype = Program, health = 9\<rparr>"
    by (simp add: unit_of_def)
  have q1: "get g' (src (mk_CoordPair 1 2 2 2)) = unit_of Defender Program 6"
    unfolding gs dba unfolding a' b'
    by (simp add: damage_table_def swept_def is_alive_def unit_of_def)
  have q2: "get g' (dst (mk_CoordPair 1 2 2 2)) = unit_of Attacker Program 6"
    unfolding gd dab unfolding a' b'
    by (simp add: damage_table_def swept_def is_alive_def unit_of_def)
  have e: "\<exists>g'. do_move_action programs_face_to_face (mk_CoordPair 1 2 2 2) (Some Attack) = Inr g'
          \<and> get g' (src (mk_CoordPair 1 2 2 2)) = unit_of Defender Program 6
          \<and> get g' (dst (mk_CoordPair 1 2 2 2)) = unit_of Attacker Program 6"
    by (rule exI [of _ g']) (rule conjI [OF r conjI [OF q1 q2]])
  show ?thesis
    by (rule conjI [OF h0 conjI [OF h1 conjI [OF h2 conjI [OF h3 conjI [OF s conjI [OF d e]]]]]])
qed

section \<open>Effect of the actions on the cells\<close>

text \<open>
  Claim C7, as the code has it. A legal Move puts the moved unit on \<open>dst\<close>, empties
  \<open>src\<close> and leaves every other cell alone. A legal Repair changes nothing but the health
  of the unit at \<open>dst\<close>, which grows and stays on the board, so the occupancy of every
  cell is unchanged. A legal Attack leaves every cell other than \<open>src\<close> and \<open>dst\<close>
  alone; each of these two cells keeps its unit with the health lowered by the damage,
  or is emptied by the sweep when that health is 0.
\<close>

theorem action_frame:
  assumes "board_shape g" and "units_ok g" and "is_valid_move g coords = (True, Some k)"
  shows "\<exists>g' a. do_move_action g coords (Some k) = Inr g' \<and> get g (src coords) = Some a
     \<and> (k = Move \<longrightarrow>
           get g' (dst coords) = Some a \<and> get g' (src coords) = None
           \<and> (\<forall>c. c \<noteq> src coords \<and> c \<noteq> dst coords \<longrightarrow> get g' c = get g c))
     \<and> (k = Repair \<longrightarrow>
           (\<exists>b. get g (dst coords) = Some b \<and> 0 < repair_amount a b
                \<and> get g' (dst coords) = Some (b\<lparr>health := health b + repair_amount a b\<rparr>))
           \<and> (\<forall>c. c \<noteq> dst coords \<longrightarrow> get g' c = get g c))
     \<and> (k = Attack \<longrightarrow>
           (\<exists>b. get g (dst coords) = Some b
                \<and> get g' (dst coords) = swept (b\<lparr>health := health b - damage_amount a b\<rparr>)
                \<and> get g' (src coords) = swept (a\<lparr>health := health a - damage_amount b a\<rparr>))
           \<and> (\<forall>c. c \<noteq> src coords \<and> c \<noteq> dst coords \<longrightarrow> get g' c = get g c))"
proof -
  note v = assms(3)
  from valid_move_src(1) [OF v] obtain a where a: "get g (src coords) = Some a" by auto
  note vs = valid_move_src(2) [OF v] and vd = valid_move_src(3) [OF v]
  have ok: "unit_ok (get g c)" for c using assms(1,2) by (simp add: units_ok_iff)
  show ?thesis
  proof (cases k)
    case SelfDestruct
    from do_move_action_ok [OF assms] obtain g' where "do_move_action g coords (Some k) = Inr g'"
      by auto
    with a SelfDestruct show ?thesis by simp
  next
    case Move
    let ?g1 = "set_coord g (dst coords) (Some a)"
    let ?g' = "set_coord ?g1 (src coords) None"
    have s1: "board_shape ?g1" using assms(1) by simp
    have res: "do_move_action g coords (Some k) = Inr ?g'"
      by (simp add: do_move_action_def Move a)
    note ne = valid_Move(2) [OF v [unfolded Move]]
    have g: "get ?g' c = (if c = src coords then None else if c = dst coords then Some a else get g c)"
      for c
      using vs vd by (auto simp: get_set_coord [OF s1] get_set_coord [OF assms(1)])
    show ?thesis using res a ne Move by (simp add: g)
  next
    case Repair
    from valid_Repair(1) [OF v [unfolded Repair]] a obtain b
      where b: "get g (dst coords) = Some b" and r: "0 < repair_amount a b" by auto
    from ok [of "dst coords"] b have hb: "health b \<le> 9" "0 < health b" by (simp_all add: unit_ok_def)
    let ?g' = "Game_mod_health g (dst coords) (repair_amount a b)"
    have res: "do_move_action g coords (Some k) = Inr ?g'"
      by (simp add: do_move_action_def Repair perform_repair_def a b Let_def)
    have g: "get ?g' c = (if c = dst coords then Some (b\<lparr>health := health b + repair_amount a b\<rparr>)
                          else get g c)" for c
      using r hb
      by (simp add: get_Game_mod_health [OF assms(1)] b repair_amount_bound(1) [OF r hb]
            swept_def is_alive_def)
    show ?thesis using res a b r Repair by (simp add: g)
  next
    case Attack
    from valid_Attack(1) [OF v [unfolded Attack]] obtain b
      where b: "get g (dst coords) = Some b" by auto
    note ne = valid_Attack(2) [OF v [unfolded Attack]]
    from ok [of "src coords"] a have ha: "0 < health a" "health a \<le> 9"
      by (simp_all add: unit_ok_def)
    from ok [of "dst coords"] b have hb: "0 < health b" "health b \<le> 9"
      by (simp_all add: unit_ok_def)
    let ?g1 = "Game_mod_health g (src coords) (- damage_amount b a)"
    let ?g' = "Game_mod_health ?g1 (dst coords) (- damage_amount a b)"
    have s1: "board_shape ?g1" using assms(1) by simp
    have res: "do_move_action g coords (Some k) = Inr ?g'"
      by (simp add: do_move_action_def Attack perform_fight_def a b Let_def)
    have g: "get ?g' c =
               (if c = dst coords then swept (b\<lparr>health := health b - damage_amount a b\<rparr>)
                else if c = src coords then swept (a\<lparr>health := health a - damage_amount b a\<rparr>)
                else get g c)" for c
      using ne
      by (auto simp: get_Game_mod_health [OF s1] get_Game_mod_health [OF assms(1)] a b
            mod_health_damage [OF ha] mod_health_damage [OF hb])
    show ?thesis using res a b ne Attack by (simp add: g)
  qed
qed

theorem action_frame_witness:
  "(board_shape initial_game \<and> units_ok initial_game
    \<and> is_valid_move initial_game (mk_CoordPair 2 4 1 4) = (True, Some Move)
    \<and> (\<exists>g'. do_move_action initial_game (mk_CoordPair 2 4 1 4) (Some Move) = Inr g'
           \<and> get g' (dst (mk_CoordPair 2 4 1 4)) = get initial_game (src (mk_CoordPair 2 4 1 4))
           \<and> get g' (src (mk_CoordPair 2 4 1 4)) = None))
   \<and> (board_shape after_virus_self_destruct \<and> units_ok after_virus_self_destruct
    \<and> is_valid_move after_virus_self_destruct (mk_CoordPair 4 4 3 4) = (True, Some Repair)
    \<and> (\<exists>g'. do_move_action after_virus_self_destruct (mk_CoordPair 4 4 3 4) (Some Repair) = Inr g'
           \<and> get g' (src (mk_CoordPair 4 4 3 4))
               = get after_virus_self_destruct (src (mk_CoordPair 4 4 3 4))))
   \<and> (board_shape programs_at_3 \<and> units_ok programs_at_3
    \<and> is_valid_move programs_at_3 (mk_CoordPair 1 2 2 2) = (True, Some Attack)
    \<and> (\<exists>g'. do_move_action programs_at_3 (mk_CoordPair 1 2 2 2) (Some Attack) = Inr g'
           \<and> get g' (mk_Coord 0 0) = get programs_at_3 (mk_Coord 0 0)))"
proof -
  have a1: "board_shape initial_game" by code_simp
  have a2: "units_ok initial_game" by code_simp
  have a3: "is_valid_move initial_game (mk_CoordPair 2 4 1 4) = (True, Some Move)" by code_simp
  have a4: "\<exists>g'. do_move_action initial_game (mk_CoordPair 2 4 1 4) (Some Move) = Inr g'
           \<and> get g' (dst (mk_CoordPair 2 4 1 4)) = get initial_game (src (mk_CoordPair 2 4 1 4))
           \<and> get g' (src (mk_CoordPair 2 4 1 4)) = None"
    using action_frame [OF a1 a2 a3] by auto
  have b1: "board_shape after_virus_self_destruct" by code_simp
  have b2: "units_ok after_virus_self_destruct" by code_simp
  have b3: "is_valid_move after_virus_self_destruct (mk_CoordPair 4 4 3 4) = (True, Some Repair)"
    by code_simp
  have b0: "src (mk_CoordPair 4 4 3 4) \<noteq> dst (mk_CoordPair 4 4 3 4)" by code_simp
  have b4: "\<exists>g'. do_move_action after_virus_self_destruct (mk_CoordPair 4 4 3 4) (Some Repair) = Inr g'
           \<and> get g' (src (mk_CoordPair 4 4 3 4))
               = get after_virus_self_destruct (src (mk_CoordPair 4 4 3 4))"
    using action_frame [OF b1 b2 b3] b0 by auto
  have c1: "board_shape programs_at_3" by code_simp
  have c2: "units_ok programs_at_3" by code_simp
  have c3: "is_valid_move programs_at_3 (mk_CoordPair 1 2 2 2) = (True, Some Attack)"
    by code_simp
  have c0: "mk_Coord 0 0 \<noteq> src (mk_CoordPair 1 2 2 2) \<and> mk_Coord 0 0 \<noteq> dst (mk_CoordPair 1 2 2 2)"
    by code_simp
  have c4: "\<exists>g'. do_move_action programs_at_3 (mk_CoordPair 1 2 2 2) (Some Attack) = Inr g'
           \<and> get g' (mk_Coord 0 0) = get programs_at_3 (mk_Coord 0 0)"
    using action_frame [OF c1 c2 c3] c0 by auto
  show ?thesis
    by (rule conjI [OF conjI [OF a1 conjI [OF a2 conjI [OF a3 a4]]]
          conjI [OF conjI [OF b1 conjI [OF b2 conjI [OF b3 b4]]]
                    conjI [OF c1 conjI [OF c2 conjI [OF c3 c4]]]]])
qed

text \<open>
  Claim C7 as worded fails for an Attack that kills: here both Programs are at health 3,
  the attack is legal, and afterwards the cells of the attacker and of its target are both
  empty.
\<close>

theorem attack_empties_cells_counterexample:
  "play initial_game [mk_CoordPair 4 2 3 2, mk_CoordPair 1 1 1 2, mk_CoordPair 3 2 2 2,
                      mk_CoordPair 1 2 2 2, mk_CoordPair 2 2 1 2] = Inr programs_at_3
   \<and> is_valid_move programs_at_3 (mk_CoordPair 1 2 2 2) = (True, Some Attack)
   \<and> get programs_at_3 (mk_Coord 1 2) = unit_of Defender Program 3
   \<and> get programs_at_3 (mk_Coord 2 2) = unit_of Attacker Program 3
   \<and> do_move_action programs_at_3 (mk_CoordPair 1 2 2 2) (Some Attack) = Inr programs_destroyed
   \<and> get programs_destroyed (mk_Coord 1 2) = None
   \<and> get programs_destroyed (mk_Coord 2 2) = None"
  by code_simp

section \<open>Minimax with and without alpha-beta pruning\<close>

text \<open>
  Claim C2 does not hold of the code. At its leaves \<open>alpha_beta_search\<close> returns the
  expression \<open>node.calculate_heuristic\<close>, the method itself and not its result (the plain
  \<open>search\<close> calls \<open>state.calculate_heuristic()\<close>), so the first comparison of a
  child's value with \<open>float('-inf')\<close> raises \<open>TypeError\<close>. For the game that \<open>main\<close>
  creates with heuristic \<open>e0\<close> and depth limit 2, the plain search returns the score 0
  and the move C4 to B4, and the search with pruning raises; it raises as well at the
  default depth limit 4. In general, with pruning enabled \<open>get_best_move_minimax\<close> never
  returns an integer score, whatever the game, the recursion bound and the clock.
\<close>

theorem alpha_beta_search_returns_no_score:
  "get_best_move_minimax 1000 True (search_game 2 False)
     = Inr (PInt 0, Some (mk_CoordPair 2 4 1 4))
   \<and> get_best_move_minimax 1000 True (search_game 2 True) = Inl TypeError
   \<and> get_best_move_minimax 1000 True (search_game 4 True) = Inl TypeError
   \<and> get_best_move_minimax fuel in_time (g\<lparr>options := (options g)\<lparr>alpha_beta := True\<rparr>\<rparr>)
       \<noteq> Inr (PInt s, mv)"
proof -
  have a: "get_best_move_minimax 1000 True (search_game 2 False)
             = Inr (PInt 0, Some (mk_CoordPair 2 4 1 4))"
    by code_simp
  have b: "get_best_move_minimax 1000 True (search_game 2 True) = Inl TypeError"
    by code_simp
  have c: "get_best_move_minimax 1000 True (search_game 4 True) = Inl TypeError"
    by code_simp
  have d: "get_best_move_minimax fuel in_time (g\<lparr>options := (options g)\<lparr>alpha_beta := True\<rparr>\<rparr>)
             \<noteq> Inr (PInt s, mv)"
  proof
    assume "get_best_move_minimax fuel in_time (g\<lparr>options := (options g)\<lparr>alpha_beta := True\<rparr>\<rparr>)
              = Inr (PInt s, mv)"
    from get_best_move_alpha_beta_result [OF _ this] show False by simp
  qed
  show ?thesis by (rule conjI [OF a conjI [OF b conjI [OF c d]]])
qed

section \<open>The static evaluation\<close>

text \<open>
  Claim C10. \<open>calculate_heuristic\<close> returns an integer exactly when the configured
  heuristic is \<open>e0\<close>, \<open>e1\<close> or \<open>e2\<close>; otherwise it returns \<open>None\<close>, and so it does for
  the default options, whose heuristic is unset. Comparing \<open>None\<close> with a number raises
  \<open>TypeError\<close>: the plain search of the default game raises at its first comparison, and
  with an unset heuristic the plain search never returns an integer score.
\<close>

theorem calculate_heuristic_needs_known_name:
  "(\<exists>s. calculate_heuristic g = Some s)
     = (heuristic (options g) = Some ''e0'' \<or> heuristic (options g) = Some ''e1''
        \<or> heuristic (options g) = Some ''e2'')
   \<and> heuristic default_Options = None
   \<and> calculate_heuristic (new_Game default_Options) = None
   \<and> py_gt PNone PNegInf = Inl TypeError
   \<and> py_lt PNone PPosInf = Inl TypeError
   \<and> get_best_move_minimax 1000 True (new_Game (default_Options\<lparr>alpha_beta := False\<rparr>))
       = Inl TypeError
   \<and> get_best_move_minimax fuel in_time
         (g\<lparr>options := (options g)\<lparr>alpha_beta := False, heuristic := None\<rparr>\<rparr>)
       \<noteq> Inr (PInt n, mv)"
proof -
  have a: "(\<exists>s. calculate_heuristic g = Some s)
     = (heuristic (options g) = Some ''e0'' \<or> heuristic (options g) = Some ''e1''
        \<or> heuristic (options g) = Some ''e2'')"
    by (simp add: calculate_heuristic_def)
  have b: "heuristic default_Options = None" by (simp add: default_Options_def)
  have c: "calculate_heuristic (new_Game default_Options) = None" by code_simp
  have d: "py_gt PNone PNegInf = Inl TypeError" by (simp add: py_gt_def)
  have e: "py_lt PNone PPosInf = Inl TypeError" by simp
  have f: "get_best_move_minimax 1000 True (new_Game (default_Options\<lparr>alpha_beta := False\<rparr>))
             = Inl TypeError"
    by code_simp
  have h: "get_best_move_minimax fuel in_time
             (g\<lparr>options := (options g)\<lparr>alpha_beta := False, heuristic := None\<rparr>\<rparr>)
           \<noteq> Inr (PInt n, mv)"
  proof
    assume r: "get_best_move_minimax fuel in_time
                 (g\<lparr>options := (options g)\<lparr>alpha_beta := False, heuristic := None\<rparr>\<rparr>)
               = Inr (PInt n, mv)"
    have "calculate_heuristic (g\<lparr>options := (options g)\<lparr>alpha_beta := False, heuristic := None\<rparr>\<rparr>)
            = None"
      by (simp add: calculate_heuristic_None_iff)
    from get_best_move_plain_result [OF _ this r, of n] show False by simp
  qed
  show ?thesis
    by (rule conjI [OF a conjI [OF b conjI [OF c conjI [OF d conjI [OF e conjI [OF f h]]]]]])
qed

end
